theory Spec2Isabelle
  imports Main "HOL-Library.Multiset"
begin

section \<open>Client side: the trading store and the WebSocket client\<close>

subsection \<open>The trading store (stores/index.ts, useTradingStore)\<close>

text \<open>
  The store keeps plain JavaScript values. \<open>updateOrder\<close> reads only the \<open>id\<close> (here \<open>order_id\<close>) of an
  order and \<open>addRecentTrade\<close> reads no field of a trade, so the other fields of
  \<open>Order\<close> (types/index.ts) are kept as one opaque payload and a trade is any value.
\<close>

record 'p Order =
  order_id :: string
  payload :: 'p

record ('t, 'p, 'x) TradingStore =
  selectedTradingPair :: "'x option"
  orderBook :: "'x option"
  recentTrades :: "'t list"
  marketData :: "'x option"
  userOrders :: "'p Order list"
  candlestickData :: "'x list"
  selectedInterval :: string
  orderType :: string
  orderSide :: string
  orderQuantity :: string
  orderPrice :: string

text \<open>\<open>[trade, ...currentTrades].slice(0, 100)\<close>\<close>

definition addRecentTrade ::
  "'t \<Rightarrow> ('t, 'p, 'x) TradingStore \<Rightarrow> ('t, 'p, 'x) TradingStore" where
  "addRecentTrade trade st =
     (let currentTrades = recentTrades st;
          newTrades = take 100 (trade # currentTrades)
      in st\<lparr>recentTrades := newTrades\<rparr>)"

text \<open>\<open>currentOrders.map(order => order.id === updatedOrder.id ? updatedOrder : order)\<close>\<close>

definition updateOrder ::
  "'p Order \<Rightarrow> ('t, 'p, 'x) TradingStore \<Rightarrow> ('t, 'p, 'x) TradingStore" where
  "updateOrder updatedOrder st =
     (let currentOrders = userOrders st;
          newOrders = map (\<lambda>order. if order_id order = order_id updatedOrder then updatedOrder else order)
                          currentOrders
      in st\<lparr>userOrders := newOrders\<rparr>)"

definition removeOrder ::
  "string \<Rightarrow> ('t, 'p, 'x) TradingStore \<Rightarrow> ('t, 'p, 'x) TradingStore" where
  "removeOrder orderId st =
     (let currentOrders = userOrders st;
          newOrders = filter (\<lambda>order. order_id order \<noteq> orderId) currentOrders
      in st\<lparr>userOrders := newOrders\<rparr>)"

subsection \<open>The WebSocket client (services/api.ts, class WebSocketClient)\<close>

text \<open>
  The socket is \<open>null\<close> or a WebSocket in one of its four ready states. The
  \<open>subscriptions\<close> field is a JavaScript \<open>Set\<close>, which keeps insertion order: a list
  that \<open>add\<close> extends at the end only when the key is new. What \<open>ws.send\<close> was given is
  recorded in \<open>sent\<close>, oldest first; \<open>JSON.stringify\<close> leaves an undefined \<open>symbol\<close> out,
  so the symbol of a message is optional.
\<close>

datatype readyState = CONNECTING | OPEN | CLOSING | CLOSED

record wsMessage =
  action :: string
  channel :: string
  symbol :: "string option"

record WebSocketClient =
  ws :: "readyState option"
  subscriptions :: "string list"
  sent :: "wsMessage list"

text \<open>
  \<open>symbol ? `${channel}:${symbol}` : channel\<close>: an undefined symbol and the empty string
  are both falsy.
\<close>

definition subscription_key :: "string \<Rightarrow> string option \<Rightarrow> string" where
  "subscription_key ch symb =
     (case symb of
        None \<Rightarrow> ch
      | Some s \<Rightarrow> if s = [] then ch else ch @ '':'' @ s)"

definition subscribe :: "string \<Rightarrow> string option \<Rightarrow> WebSocketClient \<Rightarrow> WebSocketClient" where
  "subscribe ch symb c =
     (let subscription = subscription_key ch symb in
      if subscription \<notin> set (subscriptions c) then
        (let c1 = c\<lparr>subscriptions := subscriptions c @ [subscription]\<rparr> in
         if ws c1 = Some OPEN
         then c1\<lparr>sent := sent c1 @ [\<lparr>action = ''subscribe'', channel = ch, symbol = symb\<rparr>]\<rparr>
         else c1)
      else c)"

definition unsubscribe :: "string \<Rightarrow> string option \<Rightarrow> WebSocketClient \<Rightarrow> WebSocketClient" where
  "unsubscribe ch symb c =
     (let subscription = subscription_key ch symb in
      if subscription \<in> set (subscriptions c) then
        (let c1 = c\<lparr>subscriptions := removeAll subscription (subscriptions c)\<rparr> in
         if ws c1 = Some OPEN
         then c1\<lparr>sent := sent c1 @ [\<lparr>action = ''unsubscribe'', channel = ch, symbol = symb\<rparr>]\<rparr>
         else c1)
      else c)"

section \<open>The exchange core: account ledger and matching engine\<close>

text \<open>
  Modelled from the spec: the backend is not among the sources, which hold the client, the
  relational schema and the types shared with the client. The data of the core (accounts,
  orders, trades, trading pairs and their enums) is taken from the schema; the ledger, the
  order book and the matching engine that work on it follow the component design of the
  spec, each definition saying which part.

  Amounts, quantities and prices are fixed-point decimals in the schema and integers here,
  counted in the smallest unit. Every operation that can fail returns an error or its
  result; on an error the caller keeps the state it had, so a rejected operation changes
  nothing.
\<close>

subsection \<open>The account ledger\<close>

text \<open>
  Modelled from the spec: the backend that raises these errors is not among the sources.
  The rejections of the external interface (\<open>InvalidTradingPair\<close>, \<open>SizeOutOfRange\<close>,
  \<open>InsufficientFunds\<close>, \<open>FOKUnfillable\<close>, \<open>InvalidPrice\<close> for a submission; \<open>NotFound\<close>,
  \<open>NotCancellable\<close>, \<open>NotOwner\<close> for a cancellation) and the integrity error
  \<open>InvariantViolation\<close> of the ledger.
\<close>

datatype error =
    InsufficientFunds | InvariantViolation | InvalidTradingPair | SizeOutOfRange
  | FOKUnfillable | InvalidPrice | NotFound | NotCancellable | NotOwner

text \<open>
  User ids and currency codes. The schema uses UUIDs and \<open>VARCHAR(10)\<close>; only equality of
  ids is ever used, so a user id is a natural number.
\<close>

type_synonym user = nat

type_synonym currency = string

text \<open>
  The three amounts of a row of the table \<open>accounts\<close> (\<open>balance\<close>,
  \<open>available_balance\<close>, \<open>locked_balance\<close>; \<open>Account\<close> in types/index.ts), in units of the
  smallest amount the currency can express (the columns are \<open>DECIMAL(20, 8)\<close>, fixed point).
  The row's key (\<open>user_id\<close>, \<open>currency\<close>) is the key of the ledger below.
\<close>

record account =
  balance :: int
  available_balance :: int
  locked_balance :: int

text \<open>
  Modelled from the spec: the account ledger of the backend is not among the sources. Its
  state: the accounts by user and currency (\<open>UNIQUE(user_id, currency)\<close>; no row until the
  currency is first used), the user that collects fees, and the external transaction ids
  already applied by \<open>credit\<close> and \<open>debit\<close>.
\<close>

record ledger =
  accounts :: "user \<Rightarrow> currency \<Rightarrow> account option"
  fee_account :: user
  applied :: "nat list"

text \<open>
  Modelled from the spec: the ledger's initial state is not among the sources. No account
  exists and no external transaction has been applied.
\<close>

definition empty_ledger :: "user \<Rightarrow> ledger" where
  "empty_ledger f = \<lparr>accounts = (\<lambda>u c. None), fee_account = f, applied = []\<rparr>"

text \<open>
  Modelled from the spec: reading an account is not among the sources. An account that
  does not exist yet reads as all zeros (the schema's column defaults).
\<close>

definition account_at :: "ledger \<Rightarrow> user \<Rightarrow> currency \<Rightarrow> account" where
  "account_at L u c =
     (case accounts L u c of
        None \<Rightarrow> \<lparr>balance = 0, available_balance = 0, locked_balance = 0\<rparr>
      | Some a \<Rightarrow> a)"

text \<open>
  Modelled from the spec: writing an account is not among the sources. The write creates
  the account on first use.
\<close>

definition put_account :: "user \<Rightarrow> currency \<Rightarrow> account \<Rightarrow> ledger \<Rightarrow> ledger" where
  "put_account u c a L = L\<lparr>accounts := (accounts L)(u := (accounts L u)(c \<mapsto> a))\<rparr>"

text \<open>
  Modelled from the spec: \<open>reserve(user, currency, amount)\<close> of the ledger is not among the
  sources. It moves \<open>amount\<close> from available to locked and fails with \<open>InsufficientFunds\<close> if
  available < amount. That is the one failure the spec states; the model adds a second one,
  which the spec does not state: a negative amount is refused, as an integrity error.
\<close>

definition reserve :: "user \<Rightarrow> currency \<Rightarrow> int \<Rightarrow> ledger \<Rightarrow> error + ledger" where
  "reserve u c amount L =
     (let a = account_at L u c in
      if amount < 0 then Inl InvariantViolation
      else if available_balance a < amount then Inl InsufficientFunds
      else Inr (put_account u c
                  (a\<lparr>available_balance := available_balance a - amount,
                     locked_balance := locked_balance a + amount\<rparr>) L))"

text \<open>
  Modelled from the spec: \<open>release(user, currency, amount)\<close> of the ledger is not among the
  sources. It moves \<open>amount\<close> from locked back to available and fails with
  \<open>InvariantViolation\<close> if locked < amount. That is the one failure the spec states; the
  model adds a second one, which the spec does not state: a negative amount is refused
  likewise.
\<close>

definition release :: "user \<Rightarrow> currency \<Rightarrow> int \<Rightarrow> ledger \<Rightarrow> error + ledger" where
  "release u c amount L =
     (let a = account_at L u c in
      if amount < 0 then Inl InvariantViolation
      else if locked_balance a < amount then Inl InvariantViolation
      else Inr (put_account u c
                  (a\<lparr>available_balance := available_balance a + amount,
                     locked_balance := locked_balance a - amount\<rparr>) L))"

text \<open>
  Modelled from the spec: the steps of \<open>settle\<close> are not among the sources. This one
  decrements an account's locked amount (and so its balance). The spec states no failure
  of a settlement; the model adds two: a negative amount and more than is locked are
  refused, as integrity errors.
\<close>

definition take_locked :: "user \<Rightarrow> currency \<Rightarrow> int \<Rightarrow> ledger \<Rightarrow> error + ledger" where
  "take_locked u c amount L =
     (let a = account_at L u c in
      if amount < 0 \<or> locked_balance a < amount then Inl InvariantViolation
      else Inr (put_account u c
                  (a\<lparr>balance := balance a - amount,
                     locked_balance := locked_balance a - amount\<rparr>) L))"

text \<open>
  Modelled from the spec: the steps of \<open>settle\<close> and \<open>credit\<close> are not among the sources.
  This one credits an account's available amount (and so its balance). The spec states no
  failure of a credit; the model adds one: a negative amount is refused, as an integrity
  error.
\<close>

definition give_available :: "user \<Rightarrow> currency \<Rightarrow> int \<Rightarrow> ledger \<Rightarrow> error + ledger" where
  "give_available u c amount L =
     (let a = account_at L u c in
      if amount < 0 then Inl InvariantViolation
      else Inr (put_account u c
                  (a\<lparr>balance := balance a + amount,
                     available_balance := available_balance a + amount\<rparr>) L))"

text \<open>
  Sequencing of fallible steps: the first error ends the sequence, and the state before
  the sequence is what the caller still holds.
\<close>

definition and_then :: "'e + 'a \<Rightarrow> ('a \<Rightarrow> 'e + 'b) \<Rightarrow> 'e + 'b" where
  "and_then r f = (case r of Inl e \<Rightarrow> Inl e | Inr x \<Rightarrow> f x)"

text \<open>
  Modelled from the spec: \<open>settle(buyer, seller, base_currency, quote_currency, qty,
  price, buyer_fee, seller_fee)\<close> of the ledger is not among the sources. In the spec's
  order: decrement the seller's locked base by \<open>qty\<close>, credit the buyer's available base by
  \<open>qty\<close> minus the base-side fee, decrement the buyer's locked quote by \<open>qty * price\<close>, credit
  the seller's available quote by \<open>qty * price\<close> minus the fee, credit both fees to the
  fee-collection account. All or nothing: any failing step fails the whole operation and no
  partial result is returned.
\<close>

definition settle ::
  "user \<Rightarrow> user \<Rightarrow> currency \<Rightarrow> currency \<Rightarrow> int \<Rightarrow> int \<Rightarrow> int \<Rightarrow> int \<Rightarrow> ledger \<Rightarrow> error + ledger" where
  "settle buyer seller base_c quote_c qty px buyer_fee seller_fee L =
     and_then (take_locked seller base_c qty L) (\<lambda>L1.
     and_then (give_available buyer base_c (qty - buyer_fee) L1) (\<lambda>L2.
     and_then (take_locked buyer quote_c (qty * px) L2) (\<lambda>L3.
     and_then (give_available seller quote_c (qty * px - seller_fee) L3) (\<lambda>L4.
     and_then (give_available (fee_account L4) base_c buyer_fee L4) (\<lambda>L5.
     give_available (fee_account L5) quote_c seller_fee L5)))))"

text \<open>
  Modelled from the spec: \<open>credit\<close> for external deposits is not among the sources. It is
  idempotent per external transaction id: a transaction already applied is accepted and
  changes nothing.
\<close>

definition credit :: "nat \<Rightarrow> user \<Rightarrow> currency \<Rightarrow> int \<Rightarrow> ledger \<Rightarrow> error + ledger" where
  "credit txid u c amount L =
     (if txid \<in> set (applied L) then Inr L
      else and_then (give_available u c amount L)
             (\<lambda>L1. Inr (L1\<lparr>applied := txid # applied L1\<rparr>)))"

text \<open>
  Modelled from the spec: \<open>debit\<close> for external withdrawals is not among the sources. It is
  idempotent per external transaction id, which is all the spec states of it. The model
  adds that a fresh withdrawal takes from the available amount only: a negative amount is
  refused as an integrity error, and more than is available with \<open>InsufficientFunds\<close>.
\<close>

definition debit :: "nat \<Rightarrow> user \<Rightarrow> currency \<Rightarrow> int \<Rightarrow> ledger \<Rightarrow> error + ledger" where
  "debit txid u c amount L =
     (let a = account_at L u c in
      if txid \<in> set (applied L) then Inr L
      else if amount < 0 then Inl InvariantViolation
      else if available_balance a < amount then Inl InsufficientFunds
      else Inr ((put_account u c
                   (a\<lparr>balance := balance a - amount,
                      available_balance := available_balance a - amount\<rparr>) L)
                \<lparr>applied := txid # applied L\<rparr>))"

text \<open>
  Modelled from the spec: the callers of the ledger are not among the sources. The five
  ledger operations, as values, so that every sequence of calls can be run.
\<close>

datatype ledger_op =
    Reserve user currency int
  | Release user currency int
  | Settle user user currency currency int int int int
  | Credit nat user currency int
  | Debit nat user currency int

text \<open>
  Modelled from the spec: the dispatch of a ledger operation to the ledger is not among
  the sources.
\<close>

fun apply_op :: "ledger_op \<Rightarrow> ledger \<Rightarrow> error + ledger" where
  "apply_op (Reserve u c a) L = reserve u c a L"
| "apply_op (Release u c a) L = release u c a L"
| "apply_op (Settle b s bc qc q p bf sf) L = settle b s bc qc q p bf sf L"
| "apply_op (Credit t u c a) L = credit t u c a L"
| "apply_op (Debit t u c a) L = debit t u c a L"

text \<open>
  Modelled from the spec: a failed ledger operation is rejected and leaves the ledger as
  it was; the code that does this is not among the sources.
\<close>

definition ledger_step :: "ledger_op \<Rightarrow> ledger \<Rightarrow> ledger" where
  "ledger_step x L = (case apply_op x L of Inl e \<Rightarrow> L | Inr L' \<Rightarrow> L')"

text \<open>
  Modelled from the spec: a ledger state is reachable when a sequence of ledger operations
  leads to it from the empty ledger.
\<close>

fun ledger_run :: "ledger_op list \<Rightarrow> ledger \<Rightarrow> ledger" where
  "ledger_run [] L = L"
| "ledger_run (x # xs) L = ledger_run xs (ledger_step x L)"

subsection \<open>Orders, trades and trading pairs\<close>

text \<open>
  The enums of the schema (\<open>order_side\<close>, \<open>order_type\<close>, \<open>order_status\<close>, \<open>time_in_force\<close>;
  \<open>OrderSide\<close>, \<open>OrderType\<close>, \<open>OrderStatus\<close>, \<open>TimeInForce\<close> in types/index.ts).
\<close>

datatype side = Buy | Sell

datatype order_type = Market | Limit | StopLoss | TakeProfit | StopLossLimit | TakeProfitLimit

datatype order_status = Pending | Open | PartiallyFilled | Filled | Cancelled | Rejected | Expired

datatype time_in_force = GTC | IOC | FOK | GTD

text \<open>
  A row of the table \<open>orders\<close> (\<open>Order\<close> in types/index.ts): \<open>id\<close> (here \<open>oid\<close>, a
  natural number in the order of creation), \<open>user_id\<close>, \<open>order_type\<close>, \<open>side\<close>, \<open>quantity\<close>,
  \<open>price\<close>, \<open>stop_price\<close>, \<open>filled_quantity\<close>, \<open>remaining_quantity\<close>, \<open>status\<close>,
  \<open>time_in_force\<close>, \<open>expires_at\<close>. Prices and quantities are fixed-point numbers, counted in
  their smallest unit; times are ticks of a clock. The engine handles one trading pair, so
  \<open>trading_pair_id\<close> is left out. Two fields are the engine's own bookkeeping, modelled
  from the spec since the engine is not among the sources: \<open>admitted\<close>, the engine's
  clock when the order was put on the book (time priority), and \<open>reserved\<close>, the part of the
  order's reservation not yet consumed by fills.
\<close>

record order =
  oid :: nat
  user_id :: user
  order_type :: order_type
  side :: side
  quantity :: int
  price :: "int option"
  stop_price :: "int option"
  filled_quantity :: int
  remaining_quantity :: int
  status :: order_status
  time_in_force :: time_in_force
  expires_at :: "nat option"
  admitted :: nat
  reserved :: int

text \<open>
  A row of the table \<open>trades\<close> (\<open>Trade\<close> in types/index.ts): the ids of the buyer's and
  the seller's order and of the two users, \<open>price\<close> and \<open>quantity\<close> (here \<open>trade_price\<close>,
  \<open>trade_quantity\<close>), and the two fees.
\<close>

record trade =
  buyer_order_id :: nat
  seller_order_id :: nat
  buyer_user_id :: user
  seller_user_id :: user
  trade_price :: int
  trade_quantity :: int
  buyer_fee :: int
  seller_fee :: int

text \<open>
  Modelled from the spec: the spec speaks of the resting (maker) and the incoming (taker)
  order of a trade, where the schema stores buyer and seller. Given the side of the
  incoming order, the maker is the trade's other side.
\<close>

definition maker_order_id :: "side \<Rightarrow> trade \<Rightarrow> nat" where
  "maker_order_id taker_side tr =
     (case taker_side of Buy \<Rightarrow> seller_order_id tr | Sell \<Rightarrow> buyer_order_id tr)"

text \<open>
  Modelled from the spec: the incoming (taker) order of a trade, given its side; see
  \<open>maker_order_id\<close>.
\<close>

definition taker_order_id :: "side \<Rightarrow> trade \<Rightarrow> nat" where
  "taker_order_id taker_side tr =
     (case taker_side of Buy \<Rightarrow> buyer_order_id tr | Sell \<Rightarrow> seller_order_id tr)"

text \<open>
  The columns of the table \<open>trading_pairs\<close> that the engine reads (\<open>TradingPair\<close> in
  types/index.ts). The fee rates are \<open>DECIMAL(5, 4)\<close>: they count ten-thousandths. Modelled
  from the spec, since admission is not among the sources: \<open>market_estimate\<close>, the
  conservative amount of quote currency to reserve for a market buy, from the best ask and
  the quantity (the spec leaves the estimate to the implementation).
\<close>

record trading_pair =
  base_currency :: currency
  quote_currency :: currency
  is_active :: bool
  min_order_size :: int
  max_order_size :: int
  maker_fee :: int
  taker_fee :: int
  market_estimate :: "int option \<Rightarrow> int \<Rightarrow> int"

text \<open>
  The request to submit an order (\<open>CreateOrderRequest\<close> in types/index.ts: \<open>orderType\<close>,
  \<open>side\<close>, \<open>quantity\<close>, \<open>price\<close>, \<open>timeInForce\<close>, \<open>stopPrice\<close>), with the user id and the
  expiry that the spec's submit interface adds.
\<close>

record CreateOrderRequest =
  req_user :: user
  req_side :: side
  req_order_type :: order_type
  req_quantity :: int
  req_price :: "int option"
  req_stop_price :: "int option"
  req_time_in_force :: "time_in_force option"
  req_expires_at :: "nat option"

text \<open>
  Modelled from the spec: the order book is not among the sources. A price level is a
  price and its bucket, the resting orders at that price, earliest admission first.
\<close>

type_synonym level = "int \<times> order list"

text \<open>
  Modelled from the spec: the matching engine is not among the sources. The state of the
  engine of one trading pair: the ledger, the two sides of the book (levels best price
  first), the pending-trigger set of stop orders, the orders that reached a terminal state,
  the trades emitted so far, the last traded price, the next order id and the clock that
  stamps admissions.
\<close>

record engine =
  funds :: ledger
  bids :: "level list"
  asks :: "level list"
  triggers :: "order list"
  closed :: "order list"
  trades :: "trade list"
  last_price :: "int option"
  next_oid :: nat
  clock :: nat


subsection \<open>Order book\<close>

text \<open>
  Modelled from the spec: the order book is not among the sources. Best price first: on
  the bid side the higher price, on the ask side the lower.
\<close>

fun better :: "side \<Rightarrow> int \<Rightarrow> int \<Rightarrow> bool" where
  "better Buy p q = (q < p)"
| "better Sell p q = (p < q)"

text \<open>
  Modelled from the spec: \<open>insert(order)\<close> of the order book is not among the sources. The
  order joins the end of the bucket of its price; a new level is put at its place in the
  price order.
\<close>

fun insert_order :: "side \<Rightarrow> int \<Rightarrow> order \<Rightarrow> level list \<Rightarrow> level list" where
  "insert_order sd p x [] = [(p, [x])]"
| "insert_order sd p x ((q, xs) # ls) =
     (if p = q then (q, xs @ [x]) # ls
      else if better sd p q then (p, [x]) # (q, xs) # ls
      else (q, xs) # insert_order sd p x ls)"

text \<open>
  Modelled from the spec: \<open>remove(order_id)\<close> of the order book is not among the sources. A
  level left without orders disappears.
\<close>

fun remove_order :: "nat \<Rightarrow> level list \<Rightarrow> level list" where
  "remove_order i [] = []"
| "remove_order i ((p, xs) # ls) =
     (let ys = filter (\<lambda>x. oid x \<noteq> i) xs in
      if ys = [] then remove_order i ls else (p, ys) # remove_order i ls)"

text \<open>
  Modelled from the spec: iteration over a book side is not among the sources. The resting
  orders of a side in matching order: level by level, oldest first within a level.
\<close>

definition resting :: "level list \<Rightarrow> order list" where
  "resting ls = concat (map snd ls)"




text \<open>
  Modelled from the spec: \<open>depth(n)\<close> of the order book is not among the sources. The
  first \<open>n\<close> levels as (price, total remaining quantity, order count).
\<close>

definition depth :: "nat \<Rightarrow> level list \<Rightarrow> (int \<times> int \<times> nat) list" where
  "depth n ls = map (\<lambda>(p, xs). (p, sum_list (map remaining_quantity xs), length xs)) (take n ls)"

text \<open>
  Modelled from the spec: access to one side of the book is not among the sources.
\<close>

definition book_side :: "side \<Rightarrow> engine \<Rightarrow> level list" where
  "book_side sd e = (case sd of Buy \<Rightarrow> bids e | Sell \<Rightarrow> asks e)"

text \<open>
  Modelled from the spec: replacing one side of the book is not among the sources.
\<close>

definition set_book_side :: "side \<Rightarrow> level list \<Rightarrow> engine \<Rightarrow> engine" where
  "set_book_side sd ls e = (case sd of Buy \<Rightarrow> e\<lparr>bids := ls\<rparr> | Sell \<Rightarrow> e\<lparr>asks := ls\<rparr>)"

text \<open>
  Modelled from the spec: the side an order matches against is not among the sources.
\<close>

fun opposite :: "side \<Rightarrow> side" where
  "opposite Buy = Sell"
| "opposite Sell = Buy"

text \<open>
  Modelled from the spec: the engine's order store is not among the sources. The active orders
  rest on the book or wait in the pending-trigger set.
\<close>

definition active :: "engine \<Rightarrow> order list" where
  "active e = resting (bids e) @ resting (asks e) @ triggers e"

text \<open>
  Modelled from the spec: the engine's order store is not among the sources. All orders: the
  active and the terminal ones.
\<close>

definition all_orders :: "engine \<Rightarrow> order list" where
  "all_orders e = active e @ closed e"


subsection \<open>Admission\<close>

text \<open>
  Modelled from the spec: the classification of order types is not among the sources. Limit,
  stop-loss-limit and take-profit-limit orders carry a limit price.
\<close>

definition has_limit_price :: "order_type \<Rightarrow> bool" where
  "has_limit_price t \<longleftrightarrow> t = Limit \<or> t = StopLossLimit \<or> t = TakeProfitLimit"

text \<open>
  Modelled from the spec: the classification of order types is not among the sources. The four
  stop variants carry a stop price.
\<close>

definition is_stop :: "order_type \<Rightarrow> bool" where
  "is_stop t \<longleftrightarrow> t = StopLoss \<or> t = TakeProfit \<or> t = StopLossLimit \<or> t = TakeProfitLimit"


text \<open>
  Modelled from the spec: step 2 of admission is not among the sources. A buy reserves quote
  currency, a sell base currency.
\<close>

definition reserve_currency :: "trading_pair \<Rightarrow> side \<Rightarrow> currency" where
  "reserve_currency tp sd = (case sd of Buy \<Rightarrow> quote_currency tp | Sell \<Rightarrow> base_currency tp)"


text \<open>
  Modelled from the spec: the creation of an order on admission is not among the sources.
  Nothing is filled yet, the status is \<open>pending\<close>, the time-in-force defaults to GTC (the
  schema's default).
\<close>

definition new_order :: "nat \<Rightarrow> nat \<Rightarrow> CreateOrderRequest \<Rightarrow> order" where
  "new_order i now r =
     \<lparr>oid = i, user_id = req_user r, order_type = req_order_type r, side = req_side r,
      quantity = req_quantity r,
      price = (if has_limit_price (req_order_type r) then req_price r else None),
      stop_price = (if is_stop (req_order_type r) then req_stop_price r else None),
      filled_quantity = 0, remaining_quantity = req_quantity r, status = Pending,
      time_in_force = (case req_time_in_force r of None \<Rightarrow> GTC | Some t \<Rightarrow> t),
      expires_at = req_expires_at r, admitted = now, reserved = 0\<rparr>"

subsection \<open>Matching\<close>

text \<open>
  Modelled from the spec: the crossing test of step 4 is not among the sources. A market order
  has no limit.
\<close>

definition limit_of :: "order \<Rightarrow> int option" where
  "limit_of t = (if order_type t = Market then None else price t)"

text \<open>
  Modelled from the spec: the crossing test of step 4 is not among the sources. A market order
  matches at any price; a buy with limit \<open>l\<close> accepts the prices \<open>p \<le> l\<close>, a sell the
  prices \<open>l \<le> p\<close>.
\<close>

definition acceptable :: "order \<Rightarrow> int \<Rightarrow> bool" where
  "acceptable t p =
     (case limit_of t of
        None \<Rightarrow> True
      | Some l \<Rightarrow> (case side t of Buy \<Rightarrow> p \<le> l | Sell \<Rightarrow> l \<le> p))"

text \<open>
  Modelled from the spec: the fee computation is not among the sources. The amount times
  the rate (in ten-thousandths), rounded down.
\<close>

definition fee_amount :: "int \<Rightarrow> int \<Rightarrow> int" where
  "fee_amount notional rate = (notional * rate) div 10000"

text \<open>
  Modelled from the spec: the update of an order by a fill is not among the sources.
  \<open>q\<close> moves from remaining to filled, \<open>cost\<close> of the reservation is consumed, and the order
  is \<open>filled\<close> when nothing remains and \<open>partially_filled\<close> otherwise.
\<close>

definition fill :: "int \<Rightarrow> int \<Rightarrow> order \<Rightarrow> order" where
  "fill q cost x =
     x\<lparr>filled_quantity := filled_quantity x + q,
       remaining_quantity := remaining_quantity x - q,
       reserved := reserved x - cost,
       status := (if remaining_quantity x - q = 0 then Filled else PartiallyFilled)\<rparr>"

text \<open>
  Modelled from the spec: the matching loop is not among the sources. What the loop
  carries: the ledger, the incoming order, the trades emitted and the resting orders
  filled completely, latest first.
\<close>

record match_state =
  m_funds :: ledger
  m_taker :: order
  m_trades :: "trade list"
  m_done :: "order list"

text \<open>
  Modelled from the spec: one match of step 4 is not among the sources. It consumes
  \<open>min(incoming.remaining, resting.remaining)\<close> at the resting order's price, calls the
  ledger's \<open>settle\<close>, emits the trade and updates both orders. The buyer pays a base-side
  fee on the quantity and the seller a fee on \<open>quantity * price\<close>, each at the taker's rate
  for the incoming order and the maker's for the resting one. A resting order without a
  price, or a fill that the orders' reservations do not cover, is an integrity error.
\<close>

definition execute :: "trading_pair \<Rightarrow> match_state \<Rightarrow> order \<Rightarrow> error + (match_state \<times> order)" where
  "execute tp m r =
     (case price r of
        None \<Rightarrow> Inl InvariantViolation
      | Some p \<Rightarrow>
         (let t = m_taker m;
              q = min (remaining_quantity t) (remaining_quantity r);
              taker_buys = (side t = Buy);
              buyer = (if taker_buys then t else r);
              seller = (if taker_buys then r else t);
              bfee = fee_amount q (if taker_buys then taker_fee tp else maker_fee tp);
              sfee = fee_amount (q * p) (if taker_buys then maker_fee tp else taker_fee tp)
          in if reserved buyer < q * p \<or> reserved seller < q then Inl InvariantViolation
             else
               (case settle (user_id buyer) (user_id seller) (base_currency tp) (quote_currency tp)
                       q p bfee sfee (m_funds m) of
                  Inl err \<Rightarrow> Inl err
                | Inr L \<Rightarrow>
                    Inr (m\<lparr>m_funds := L,
                           m_taker := fill q (if taker_buys then q * p else q) t,
                           m_trades := m_trades m @
                             [\<lparr>buyer_order_id = oid buyer, seller_order_id = oid seller,
                               buyer_user_id = user_id buyer, seller_user_id = user_id seller,
                               trade_price = p, trade_quantity = q,
                               buyer_fee = bfee, seller_fee = sfee\<rparr>]\<rparr>,
                         fill q (if taker_buys then q else q * p) r))))"

text \<open>
  Modelled from the spec: the transition of an order to a terminal state is not among
  the sources. The unconsumed reservation is released and the status set.
\<close>

definition retire :: "trading_pair \<Rightarrow> order_status \<Rightarrow> order \<Rightarrow> ledger \<Rightarrow> error + (order \<times> ledger)" where
  "retire tp st x L =
     (case release (user_id x) (reserve_currency tp (side x)) (reserved x) L of
        Inl err \<Rightarrow> Inl err
      | Inr L' \<Rightarrow> Inr (x\<lparr>status := st, reserved := 0\<rparr>, L'))"

text \<open>
  Modelled from the spec: matching within a price level is not among the sources. Oldest
  order first, while the incoming order has remaining quantity; a resting order filled
  completely leaves the book, one filled in part stays at the head of its bucket.
\<close>

fun match_bucket ::
  "trading_pair \<Rightarrow> match_state \<Rightarrow> order list \<Rightarrow> error + (match_state \<times> order list)" where
  "match_bucket tp m [] = Inr (m, [])"
| "match_bucket tp m (r # rs) =
     (if remaining_quantity (m_taker m) \<le> 0 then Inr (m, r # rs)
      else
        (case execute tp m r of
           Inl err \<Rightarrow> Inl err
         | Inr (m1, r1) \<Rightarrow>
             if remaining_quantity r1 = 0 then
               (case retire tp Filled r1 (m_funds m1) of
                  Inl err \<Rightarrow> Inl err
                | Inr (r2, L) \<Rightarrow> match_bucket tp (m1\<lparr>m_funds := L, m_done := r2 # m_done m1\<rparr>) rs)
             else Inr (m1, r1 # rs)))"

text \<open>
  Modelled from the spec: matching across price levels is not among the sources. Level by
  level from the best price, while the price crosses and the incoming order has remaining
  quantity.
\<close>

fun match_levels ::
  "trading_pair \<Rightarrow> match_state \<Rightarrow> level list \<Rightarrow> error + (match_state \<times> level list)" where
  "match_levels tp m [] = Inr (m, [])"
| "match_levels tp m ((p, rs) # ls) =
     (if remaining_quantity (m_taker m) \<le> 0 \<or> \<not> acceptable (m_taker m) p then Inr (m, (p, rs) # ls)
      else
        (case match_bucket tp m rs of
           Inl err \<Rightarrow> Inl err
         | Inr (m1, rs1) \<Rightarrow>
             if rs1 = [] then match_levels tp m1 ls else Inr (m1, (p, rs1) # ls)))"

text \<open>
  Modelled from the spec: the dry run of fill-or-kill is not among the sources. The
  opposite side holds, at prices acceptable to the order, at least the order's quantity.
\<close>

definition fok_fillable :: "order \<Rightarrow> level list \<Rightarrow> bool" where
  "fok_fillable t ls \<longleftrightarrow>
     remaining_quantity t \<le> sum_list (map remaining_quantity (resting (filter (\<lambda>(p, xs). acceptable t p) ls)))"


text \<open>
  Modelled from the spec: the engine's update after matching is not among the sources.
  The opposite side as matching left it, the ledger after settlement, the filled resting
  orders among the terminal ones, the trades appended, and the last traded price.
\<close>

definition absorb_match :: "side \<Rightarrow> match_state \<Rightarrow> level list \<Rightarrow> engine \<Rightarrow> engine" where
  "absorb_match sd m ls e =
     (set_book_side (opposite sd) ls e)
       \<lparr>funds := m_funds m, closed := m_done m @ closed e,
        trades := trades e @ m_trades m,
        last_price := (if m_trades m = [] then last_price e
                       else Some (trade_price (last (m_trades m))))\<rparr>"


text \<open>
  Modelled from the spec: putting an order on the book is not among the sources. The
  order is stamped with the clock, joins its side at its price, and the clock advances.
\<close>

definition rest_order :: "int \<Rightarrow> order \<Rightarrow> engine \<Rightarrow> engine \<times> order" where
  "rest_order p x e =
     (let x1 = x\<lparr>admitted := clock e\<rparr> in
      ((set_book_side (side x1) (insert_order (side x1) p x1 (book_side (side x1) e)) e)
         \<lparr>clock := clock e + 1\<rparr>, x1))"



subsection \<open>Stop orders\<close>




subsection \<open>Cancellation and expiry\<close>

text \<open>
  \<open>canCancelOrder\<close> of pages/Orders/Orders.tsx, on the status alone:
  \<open>order.status === 'open' || order.status === 'partially_filled'\<close>.
\<close>

definition canCancelOrder :: "order_status \<Rightarrow> bool" where
  "canCancelOrder st \<longleftrightarrow> st = Open \<or> st = PartiallyFilled"

text \<open>
  Modelled from the spec: step 6, cancellation, is not among the sources. The order is removed
  from the book and from the pending-trigger set.
\<close>

definition withdraw_order :: "nat \<Rightarrow> engine \<Rightarrow> engine" where
  "withdraw_order i e =
     e\<lparr>bids := remove_order i (bids e), asks := remove_order i (asks e),
       triggers := filter (\<lambda>y. oid y \<noteq> i) (triggers e)\<rparr>"







subsection \<open>Triggers and commands\<close>





section \<open>Invariants and auxiliary notions\<close>

text \<open>
  The invariant of an account, and of a ledger: of every account.
\<close>

definition account_ok :: "account \<Rightarrow> bool" where
  "account_ok a \<longleftrightarrow>
     balance a = available_balance a + locked_balance a \<and>
     0 \<le> balance a \<and> 0 \<le> available_balance a \<and> 0 \<le> locked_balance a"

definition ledger_ok :: "ledger \<Rightarrow> bool" where
  "ledger_ok L \<longleftrightarrow> (\<forall>u c. account_ok (account_at L u c))"

text \<open>
  The quantity of one match and what it consumes of the two reservations: the buyer's is
  in quote currency, the seller's in base currency.
\<close>

definition exec_qty :: "order \<Rightarrow> order \<Rightarrow> int" where
  "exec_qty t r = min (remaining_quantity t) (remaining_quantity r)"

definition taker_cost :: "order \<Rightarrow> int \<Rightarrow> int \<Rightarrow> int" where
  "taker_cost t q p = (if side t = Buy then q * p else q)"

definition maker_cost :: "order \<Rightarrow> int \<Rightarrow> int \<Rightarrow> int" where
  "maker_cost t q p = (if side t = Buy then q else q * p)"

text \<open>
  The quantities of an order are consistent; \<open>evolves x y\<close>: \<open>y\<close> is a later state of
  the order \<open>x\<close>.
\<close>

definition order_ok :: "order \<Rightarrow> bool" where
  "order_ok x \<longleftrightarrow> remaining_quantity x = quantity x - filled_quantity x \<and> 0 \<le> remaining_quantity x"

definition evolves :: "order \<Rightarrow> order \<Rightarrow> bool" where
  "evolves x y \<longleftrightarrow>
     oid y = oid x \<and> user_id y = user_id x \<and> side y = side x \<and> quantity y = quantity x \<and>
     filled_quantity x \<le> filled_quantity y"

definition orders_ok :: "engine \<Rightarrow> bool" where
  "orders_ok e \<longleftrightarrow> list_all order_ok (all_orders e)"



definition held :: "trading_pair \<Rightarrow> user \<Rightarrow> currency \<Rightarrow> order \<Rightarrow> int" where
  "held tp u c x = (if user_id x = u \<and> reserve_currency tp (side x) = c then reserved x else 0)"

definition held_sum :: "trading_pair \<Rightarrow> user \<Rightarrow> currency \<Rightarrow> order list \<Rightarrow> int" where
  "held_sum tp u c xs = sum_list (map (held tp u c) xs)"

text \<open>
  A well-formed book side: every resting order is a limit order that is open or partially
  filled, rests at its own price on its own side with a time-in-force that may rest (GTC or
  GTD), and was admitted before the clock \<open>k\<close>; within a bucket admissions increase; the
  levels go from the best price to the worst.
\<close>

definition resting_ok :: "side \<Rightarrow> nat \<Rightarrow> int \<Rightarrow> order \<Rightarrow> bool" where
  "resting_ok sd k p x \<longleftrightarrow>
     price x = Some p \<and> side x = sd \<and> order_type x = Limit \<and> (time_in_force x = GTC \<or> time_in_force x = GTD) \<and>
     canCancelOrder (status x) \<and> admitted x < k"

definition bucket_ok :: "side \<Rightarrow> nat \<Rightarrow> int \<Rightarrow> order list \<Rightarrow> bool" where
  "bucket_ok sd k p xs \<longleftrightarrow>
     list_all (resting_ok sd k p) xs \<and> sorted_wrt (\<lambda>x y. admitted x < admitted y) xs"

definition side_ok :: "side \<Rightarrow> nat \<Rightarrow> level list \<Rightarrow> bool" where
  "side_ok sd k ls \<longleftrightarrow>
     sorted_wrt (better sd) (map fst ls) \<and> list_all (\<lambda>l. bucket_ok sd k (fst l) (snd l)) ls"



text \<open>
  Through matching, the makers of the trades emitted are the resting orders in matching
  order, from the first.
\<close>

definition match_trades :: "order list \<Rightarrow> order \<Rightarrow> match_state \<Rightarrow> level list \<Rightarrow> bool" where
  "match_trades xs0 t0 m ls \<longleftrightarrow>
     map oid (rev (m_done m) @ resting ls) = map oid xs0 \<and>
     oid (m_taker m) = oid t0 \<and> side (m_taker m) = side t0 \<and>
     list_all (\<lambda>tr. taker_order_id (side t0) tr = oid t0) (m_trades m) \<and>
     (m_trades m = [] \<longrightarrow> m_taker m = t0) \<and>
     (map (maker_order_id (side t0)) (m_trades m) = map oid (rev (m_done m)) \<or>
      remaining_quantity (m_taker m) = 0 \<and> resting ls \<noteq> [] \<and>
      map (maker_order_id (side t0)) (m_trades m) = map oid (rev (m_done m)) @ [oid (hd (resting ls))])"

text \<open>
  The liquidity the dry run counts.
\<close>

definition liquidity :: "order \<Rightarrow> level list \<Rightarrow> int" where
  "liquidity t ls = sum_list (map remaining_quantity (resting (filter (\<lambda>(p, xs). acceptable t p) ls)))"

text \<open>
  Price-time priority between two resting orders of a side: the better price, or the
  same price and the earlier admission.
\<close>

definition precedes :: "side \<Rightarrow> order \<Rightarrow> order \<Rightarrow> bool" where
  "precedes sd a b \<longleftrightarrow>
     (case (price a, price b) of
        (Some pa, Some pb) \<Rightarrow> better sd pa pb \<or> (pa = pb \<and> admitted a < admitted b)
      | _ \<Rightarrow> False)"

text \<open>
  The invariant of the engine, stated with a list \<open>xs\<close> of orders in flight (admitted
  but not yet placed): order ids are distinct and below the next id; every locked amount is
  the sum of what the active orders hold, and no order holds a negative amount; both sides
  of the book are well formed; the pending orders are stop orders in a cancellable state;
  the terminal orders are in no cancellable state and hold nothing.
\<close>

definition ids_ok :: "order list \<Rightarrow> engine \<Rightarrow> bool" where
  "ids_ok xs e \<longleftrightarrow>
     distinct (map oid (all_orders e @ xs)) \<and>
     list_all (\<lambda>x. oid x < next_oid e) (all_orders e @ xs)"




text \<open>
  The ids of a list of orders, as a multiset.
\<close>

definition oids :: "order list \<Rightarrow> nat multiset" where
  "oids xs = mset (map oid xs)"

text \<open>
  Two states of one order that differ at most in what a fill or a change of status
  changes.
\<close>

definition same_order :: "order \<Rightarrow> order \<Rightarrow> bool" where
  "same_order x y \<longleftrightarrow>
     oid y = oid x \<and> user_id y = user_id x \<and> order_type y = order_type x \<and> side y = side x \<and>
     quantity y = quantity x \<and> price y = price x \<and> stop_price y = stop_price x \<and>
     time_in_force y = time_in_force x \<and> expires_at y = expires_at x"


text \<open>
  An engine operation moves every order to a later state of itself, the orders in
  flight included.
\<close>

definition grows :: "order set \<Rightarrow> order set \<Rightarrow> bool" where
  "grows A B \<longleftrightarrow> (\<forall>x \<in> A. \<exists>y \<in> B. evolves x y)"

definition advance :: "order list \<Rightarrow> engine \<Rightarrow> order list \<Rightarrow> engine \<Rightarrow> bool" where
  "advance xs e xs' e' \<longleftrightarrow>
     (list_all order_ok (all_orders e @ xs) \<longrightarrow>
        list_all order_ok (all_orders e' @ xs') \<and>
        grows (set (all_orders e @ xs)) (set (all_orders e' @ xs')))"

section \<open>Worked examples\<close>

text \<open>
  A store with two orders.
\<close>

definition demo_store :: "(nat, nat, nat) TradingStore" where
  "demo_store =
     \<lparr>selectedTradingPair = None, orderBook = None, recentTrades = [], marketData = None,
      userOrders = [\<lparr>order_id = ''a'', payload = 1\<rparr>, \<lparr>order_id = ''b'', payload = 2\<rparr>],
      candlestickData = [], selectedInterval = ''1h'', orderType = ''limit'',
      orderSide = ''buy'', orderQuantity = [], orderPrice = []\<rparr>"

text \<open>
  A trading pair with maker rate 0.1 % and taker rate 0.2 %, and requests for limit
  orders.
\<close>

definition demo_pair :: trading_pair where
  "demo_pair =
     \<lparr>base_currency = ''BTC'', quote_currency = ''USD'', is_active = True,
      min_order_size = 1, max_order_size = 1000000, maker_fee = 10, taker_fee = 20,
      market_estimate = (\<lambda>best q. case best of None \<Rightarrow> 0 | Some p \<Rightarrow> q * p * 2)\<rparr>"

definition lim :: "user \<Rightarrow> side \<Rightarrow> int \<Rightarrow> int \<Rightarrow> time_in_force \<Rightarrow> CreateOrderRequest" where
  "lim u sd q p t = \<lparr>req_user = u, req_side = sd, req_order_type = Limit, req_quantity = q,
     req_price = Some p, req_stop_price = None, req_time_in_force = Some t, req_expires_at = None\<rparr>"





text \<open>
  A ledger run: reservations, a settlement, a release, two operations that are
  refused (an overdraft, a negative reservation) and a deposit whose transaction id was
  seen before.
\<close>

definition demo_ops :: "ledger_op list" where
  "demo_ops =
     [Credit 1 1 ''BTC'' 1000, Reserve 1 ''BTC'' 300, Credit 2 2 ''USD'' 100000,
      Reserve 2 ''USD'' 40000, Settle 2 1 ''BTC'' ''USD'' 300 90 0 27, Release 2 ''USD'' 13000,
      Debit 3 1 ''BTC'' 5000, Reserve 1 ''BTC'' (- 5), Credit 1 1 ''BTC'' 1000]"

text \<open>
  One match: a buy of 400 at limit 100 meets a resting sell of 300 at 90.
\<close>

definition demo_taker :: order where
  "demo_taker = (new_order 1 0 (lim 2 Buy 400 100 GTC))\<lparr>reserved := 40000, status := Open\<rparr>"

definition demo_maker :: order where
  "demo_maker = (new_order 0 0 (lim 1 Sell 300 90 GTC))\<lparr>reserved := 300, status := Open\<rparr>"

definition demo_match :: match_state where
  "demo_match =
     \<lparr>m_funds = ledger_run (take 4 demo_ops) (empty_ledger 0), m_taker = demo_taker,
      m_trades = [], m_done = []\<rparr>"

section \<open>Properties of the exchange core\<close>

subsection \<open>The ledger invariant\<close>

lemma account_at_put:
  "account_at (put_account u c a L) u' c' = (if u' = u \<and> c' = c then a else account_at L u' c')"
  by (simp add: account_at_def put_account_def)

lemma ledger_ok_put:
  "ledger_ok L \<Longrightarrow> account_ok a \<Longrightarrow> ledger_ok (put_account u c a L)"
  by (simp add: ledger_ok_def account_at_put)

lemma account_at_applied [simp]: "account_at (L\<lparr>applied := xs\<rparr>) u c = account_at L u c"
  by (simp add: account_at_def)

lemma ledger_ok_applied [simp]: "ledger_ok (L\<lparr>applied := xs\<rparr>) = ledger_ok L"
  by (simp add: ledger_ok_def)

lemma ledger_ok_empty: "ledger_ok (empty_ledger f)"
  by (simp add: ledger_ok_def account_at_def empty_ledger_def account_ok_def)

lemma ledger_okD: "ledger_ok L \<Longrightarrow> account_ok (account_at L u c)"
  by (simp add: ledger_ok_def)

lemma reserve_ok:
  assumes "ledger_ok L" and "reserve u c a L = Inr L'"
  shows "ledger_ok L'"
proof -
  let ?a = "account_at L u c"
  from assms(2) have a: "0 \<le> a" "a \<le> available_balance ?a"
    and L': "L' = put_account u c (?a\<lparr>available_balance := available_balance ?a - a, locked_balance := locked_balance ?a + a\<rparr>) L"
    by (simp_all add: reserve_def Let_def split: if_splits)
  from ledger_okD [OF assms(1), of u c] a
  have "account_ok (?a\<lparr>available_balance := available_balance ?a - a, locked_balance := locked_balance ?a + a\<rparr>)"
    by (simp add: account_ok_def)
  with assms(1) L' show ?thesis by (simp add: ledger_ok_put)
qed

lemma release_ok:
  assumes "ledger_ok L" and "release u c a L = Inr L'"
  shows "ledger_ok L'"
proof -
  let ?a = "account_at L u c"
  from assms(2) have a: "0 \<le> a" "a \<le> locked_balance ?a"
    and L': "L' = put_account u c (?a\<lparr>available_balance := available_balance ?a + a, locked_balance := locked_balance ?a - a\<rparr>) L"
    by (simp_all add: release_def Let_def split: if_splits)
  from ledger_okD [OF assms(1), of u c] a
  have "account_ok (?a\<lparr>available_balance := available_balance ?a + a, locked_balance := locked_balance ?a - a\<rparr>)"
    by (simp add: account_ok_def)
  with assms(1) L' show ?thesis by (simp add: ledger_ok_put)
qed

lemma take_locked_ok:
  assumes "ledger_ok L" and "take_locked u c a L = Inr L'"
  shows "ledger_ok L'"
proof -
  let ?a = "account_at L u c"
  from assms(2) have a: "0 \<le> a" "a \<le> locked_balance ?a"
    and L': "L' = put_account u c (?a\<lparr>balance := balance ?a - a, locked_balance := locked_balance ?a - a\<rparr>) L"
    by (simp_all add: take_locked_def Let_def split: if_splits)
  from ledger_okD [OF assms(1), of u c] a
  have "account_ok (?a\<lparr>balance := balance ?a - a, locked_balance := locked_balance ?a - a\<rparr>)"
    by (simp add: account_ok_def)
  with assms(1) L' show ?thesis by (simp add: ledger_ok_put)
qed

lemma give_available_ok:
  assumes "ledger_ok L" and "give_available u c a L = Inr L'"
  shows "ledger_ok L'"
proof -
  let ?a = "account_at L u c"
  from assms(2) have a: "0 \<le> a"
    and L': "L' = put_account u c (?a\<lparr>balance := balance ?a + a, available_balance := available_balance ?a + a\<rparr>) L"
    by (simp_all add: give_available_def Let_def split: if_splits)
  from ledger_okD [OF assms(1), of u c] a
  have "account_ok (?a\<lparr>balance := balance ?a + a, available_balance := available_balance ?a + a\<rparr>)"
    by (simp add: account_ok_def)
  with assms(1) L' show ?thesis by (simp add: ledger_ok_put)
qed

lemma and_then_Inr:
  "and_then r f = Inr y \<longleftrightarrow> (\<exists>x. r = Inr x \<and> f x = Inr y)"
  by (cases r) (simp_all add: and_then_def)

lemma settle_ok:
  assumes "ledger_ok L" and "settle b s bc qc q p bf sf L = Inr L'"
  shows "ledger_ok L'"
proof -
  from assms(2) obtain L1 L2 L3 L4 L5 where
    s: "take_locked s bc q L = Inr L1" "give_available b bc (q - bf) L1 = Inr L2"
       "take_locked b qc (q * p) L2 = Inr L3" "give_available s qc (q * p - sf) L3 = Inr L4"
       "give_available (fee_account L4) bc bf L4 = Inr L5"
       "give_available (fee_account L5) qc sf L5 = Inr L'"
    unfolding settle_def and_then_Inr by blast
  from assms(1) s(1) have "ledger_ok L1" by (rule take_locked_ok)
  then have "ledger_ok L2" using s(2) by (rule give_available_ok)
  then have "ledger_ok L3" using s(3) by (rule take_locked_ok)
  then have "ledger_ok L4" using s(4) by (rule give_available_ok)
  then have "ledger_ok L5" using s(5) by (rule give_available_ok)
  then show ?thesis using s(6) by (rule give_available_ok)
qed

lemma credit_ok:
  assumes "ledger_ok L" and "credit t u c a L = Inr L'"
  shows "ledger_ok L'"
proof (cases "t \<in> set (applied L)")
  case True
  with assms show ?thesis by (simp add: credit_def)
next
  case False
  with assms(2) obtain L1 where "give_available u c a L = Inr L1" "L' = L1\<lparr>applied := t # applied L1\<rparr>"
    by (auto simp: credit_def and_then_Inr)
  with assms(1) show ?thesis by (simp add: give_available_ok)
qed

lemma debit_ok:
  assumes "ledger_ok L" and "debit t u c a L = Inr L'"
  shows "ledger_ok L'"
proof (cases "t \<in> set (applied L)")
  case True
  with assms show ?thesis by (simp add: debit_def)
next
  case False
  let ?a = "account_at L u c"
  from False assms(2) have a: "0 \<le> a" "a \<le> available_balance ?a"
    and L': "L' = (put_account u c (?a\<lparr>balance := balance ?a - a, available_balance := available_balance ?a - a\<rparr>) L)
                  \<lparr>applied := t # applied L\<rparr>"
    by (simp_all add: debit_def Let_def split: if_splits)
  from ledger_okD [OF assms(1), of u c] a
  have "account_ok (?a\<lparr>balance := balance ?a - a, available_balance := available_balance ?a - a\<rparr>)"
    by (simp add: account_ok_def)
  with assms(1) L' show ?thesis by (simp add: ledger_ok_put)
qed

lemma apply_op_ok:
  assumes "ledger_ok L" and "apply_op x L = Inr L'"
  shows "ledger_ok L'"
proof (cases x)
  case (Reserve u c a)
  with assms show ?thesis by (simp add: reserve_ok [of L u c a L'])
next
  case (Release u c a)
  with assms show ?thesis by (simp add: release_ok [of L u c a L'])
next
  case (Settle b s bc qc q p bf sf)
  with assms show ?thesis by (simp add: settle_ok [of L b s bc qc q p bf sf L'])
next
  case (Credit t u c a)
  with assms show ?thesis by (simp add: credit_ok [of L t u c a L'])
next
  case (Debit t u c a)
  with assms show ?thesis by (simp add: debit_ok [of L t u c a L'])
qed

lemma ledger_step_ok:
  assumes "ledger_ok L"
  shows "ledger_ok (ledger_step x L)"
proof (cases "apply_op x L")
  case (Inl e)
  with assms show ?thesis by (simp add: ledger_step_def)
next
  case (Inr L')
  with assms apply_op_ok [of L x L'] show ?thesis by (simp add: ledger_step_def)
qed

lemma ledger_run_ok: "ledger_ok L \<Longrightarrow> ledger_ok (ledger_run xs L)"
  by (induction xs arbitrary: L) (simp_all add: ledger_step_ok)

subsection \<open>Termination of the trigger pass\<close>

lemma set_book_side_triggers [simp]: "triggers (set_book_side sd ls e) = triggers e"
  by (cases sd) (simp_all add: set_book_side_def)


lemma absorb_match_triggers [simp]: "triggers (absorb_match sd m ls e) = triggers e"
  by (simp add: absorb_match_def)

lemma rest_order_triggers [simp]: "triggers (fst (rest_order p x e)) = triggers e"
  by (simp add: rest_order_def Let_def)






subsection \<open>One match, and the matching loops as repeated steps\<close>


lemma execute_Inr:
  assumes "execute tp m r = Inr (m1, r1)"
  obtains p L where
    "price r = Some p"
    "taker_cost (m_taker m) (exec_qty (m_taker m) r) p \<le> reserved (m_taker m)"
    "maker_cost (m_taker m) (exec_qty (m_taker m) r) p \<le> reserved r"
    "settle (user_id (if side (m_taker m) = Buy then m_taker m else r))
            (user_id (if side (m_taker m) = Buy then r else m_taker m))
            (base_currency tp) (quote_currency tp) (exec_qty (m_taker m) r) p
            (fee_amount (exec_qty (m_taker m) r)
               (if side (m_taker m) = Buy then taker_fee tp else maker_fee tp))
            (fee_amount (exec_qty (m_taker m) r * p)
               (if side (m_taker m) = Buy then maker_fee tp else taker_fee tp))
            (m_funds m) = Inr L"
    "m_funds m1 = L"
    "m_taker m1 = fill (exec_qty (m_taker m) r)
                    (taker_cost (m_taker m) (exec_qty (m_taker m) r) p) (m_taker m)"
    "r1 = fill (exec_qty (m_taker m) r) (maker_cost (m_taker m) (exec_qty (m_taker m) r) p) r"
    "m_done m1 = m_done m"
    "\<exists>tr. m_trades m1 = m_trades m @ [tr] \<and> maker_order_id (side (m_taker m)) tr = oid r \<and>
          taker_order_id (side (m_taker m)) tr = oid (m_taker m) \<and> trade_price tr = p \<and>
          trade_quantity tr = exec_qty (m_taker m) r"
proof -
  from assms obtain p where p: "price r = Some p"
    by (cases "price r") (simp_all add: execute_def)
  let ?t = "m_taker m"
  let ?q = "exec_qty ?t r"
  from assms p have g: "taker_cost ?t ?q p \<le> reserved ?t" "maker_cost ?t ?q p \<le> reserved r"
    by (auto simp: execute_def Let_def exec_qty_def taker_cost_def maker_cost_def
             split: if_splits)
  from assms p g obtain L where
    L: "settle (user_id (if side ?t = Buy then ?t else r))
            (user_id (if side ?t = Buy then r else ?t))
            (base_currency tp) (quote_currency tp) ?q p
            (fee_amount ?q (if side ?t = Buy then taker_fee tp else maker_fee tp))
            (fee_amount (?q * p) (if side ?t = Buy then maker_fee tp else taker_fee tp))
            (m_funds m) = Inr L"
    by (cases "side ?t = Buy")
       (auto simp: execute_def Let_def exec_qty_def taker_cost_def maker_cost_def
             split: if_splits sum.splits)
  from assms p g L have r: "m_funds m1 = L"
    "m_taker m1 = fill ?q (taker_cost ?t ?q p) ?t"
    "r1 = fill ?q (maker_cost ?t ?q p) r"
    "m_done m1 = m_done m"
    "\<exists>tr. m_trades m1 = m_trades m @ [tr] \<and> maker_order_id (side (m_taker m)) tr = oid r \<and>
          taker_order_id (side (m_taker m)) tr = oid ?t \<and> trade_price tr = p \<and>
          trade_quantity tr = ?q"
    by (cases "side ?t";
        auto simp: execute_def Let_def exec_qty_def taker_cost_def maker_cost_def
                   maker_order_id_def taker_order_id_def
             split: if_splits sum.splits)+
  from p g L r that show thesis by blast
qed

lemma fill_static [simp]:
  "oid (fill q c x) = oid x" "user_id (fill q c x) = user_id x" "order_type (fill q c x) = order_type x"
  "side (fill q c x) = side x" "quantity (fill q c x) = quantity x"
  "price (fill q c x) = price x" "stop_price (fill q c x) = stop_price x"
  "time_in_force (fill q c x) = time_in_force x" "expires_at (fill q c x) = expires_at x"
  "admitted (fill q c x) = admitted x"
  by (simp_all add: fill_def)

lemma fill_dynamic [simp]:
  "filled_quantity (fill q c x) = filled_quantity x + q" "remaining_quantity (fill q c x) = remaining_quantity x - q"
  "reserved (fill q c x) = reserved x - c"
  "status (fill q c x) = (if remaining_quantity x - q = 0 then Filled else PartiallyFilled)"
  by (simp_all add: fill_def)

lemma limit_of_fill [simp]: "limit_of (fill q c x) = limit_of x"
  by (simp add: limit_of_def)

lemma acceptable_fill [simp]: "acceptable (fill q c x) p = acceptable x p"
  by (simp add: acceptable_def split: option.splits)

lemma execute_acceptable:
  "execute tp m r = Inr (m', r') \<Longrightarrow> acceptable (m_taker m') p = acceptable (m_taker m) p"
  by (erule execute_Inr) simp

text \<open>The matching loops as repeated steps: any property kept by each step is kept by the loop.\<close>

lemma match_bucket_steps:
  assumes "match_bucket tp m rs = Inr (m1, rs1)"
    and "P m rs"
    and full: "\<And>m r rs m' r' r2 L. P m (r # rs) \<Longrightarrow> 0 < remaining_quantity (m_taker m) \<Longrightarrow>
            execute tp m r = Inr (m', r') \<Longrightarrow> remaining_quantity r' = 0 \<Longrightarrow>
            retire tp Filled r' (m_funds m') = Inr (r2, L) \<Longrightarrow>
            P (m'\<lparr>m_funds := L, m_done := r2 # m_done m'\<rparr>) rs"
    and part: "\<And>m r rs m' r'. P m (r # rs) \<Longrightarrow> 0 < remaining_quantity (m_taker m) \<Longrightarrow>
            execute tp m r = Inr (m', r') \<Longrightarrow> remaining_quantity r' \<noteq> 0 \<Longrightarrow> P m' (r' # rs)"
  shows "P m1 rs1"
  using assms(1,2)
proof (induction rs arbitrary: m)
  case Nil
  then show ?case by simp
next
  case (Cons r rs)
  show ?case
  proof (cases "remaining_quantity (m_taker m) \<le> 0")
    case True
    with Cons.prems show ?thesis by simp
  next
    case False
    then have pos: "0 < remaining_quantity (m_taker m)" by simp
    from False Cons.prems(1) obtain m' r' where ex: "execute tp m r = Inr (m', r')"
      by (cases "execute tp m r") auto
    show ?thesis
    proof (cases "remaining_quantity r' = 0")
      case True
      with False ex Cons.prems(1) obtain r2 L where
        rt: "retire tp Filled r' (m_funds m') = Inr (r2, L)"
        and rec: "match_bucket tp (m'\<lparr>m_funds := L, m_done := r2 # m_done m'\<rparr>) rs = Inr (m1, rs1)"
        by (cases "retire tp Filled r' (m_funds m')") auto
      from full [OF Cons.prems(2) pos ex True rt]
      show ?thesis by (rule Cons.IH [OF rec])
    next
      case nz: False
      with False ex Cons.prems(1) have "m1 = m'" "rs1 = r' # rs" by auto
      with part [OF Cons.prems(2) pos ex nz] show ?thesis by simp
    qed
  qed
qed

lemma match_levels_steps:
  assumes "match_levels tp m ls = Inr (m1, ls1)"
    and "P m ls"
    and full: "\<And>m p r rs ls m' r' r2 L. P m ((p, r # rs) # ls) \<Longrightarrow> 0 < remaining_quantity (m_taker m) \<Longrightarrow>
            acceptable (m_taker m) p \<Longrightarrow>
            execute tp m r = Inr (m', r') \<Longrightarrow> remaining_quantity r' = 0 \<Longrightarrow>
            retire tp Filled r' (m_funds m') = Inr (r2, L) \<Longrightarrow>
            P (m'\<lparr>m_funds := L, m_done := r2 # m_done m'\<rparr>) ((p, rs) # ls)"
    and part: "\<And>m p r rs ls m' r'. P m ((p, r # rs) # ls) \<Longrightarrow> 0 < remaining_quantity (m_taker m) \<Longrightarrow>
            acceptable (m_taker m) p \<Longrightarrow>
            execute tp m r = Inr (m', r') \<Longrightarrow> remaining_quantity r' \<noteq> 0 \<Longrightarrow>
            P m' ((p, r' # rs) # ls)"
    and drop: "\<And>m p ls. P m ((p, []) # ls) \<Longrightarrow> P m ls"
  shows "P m1 ls1"
  using assms(1,2)
proof (induction ls arbitrary: m)
  case Nil
  then show ?case by simp
next
  case (Cons l ls)
  obtain p rs where l: "l = (p, rs)" by (cases l)
  show ?case
  proof (cases "remaining_quantity (m_taker m) \<le> 0 \<or> \<not> acceptable (m_taker m) p")
    case True
    with Cons.prems l show ?thesis by auto
  next
    case False
    with Cons.prems(1) l obtain m' rs' where mb: "match_bucket tp m rs = Inr (m', rs')"
      by (cases "match_bucket tp m rs") auto
    have acc: "acceptable (m_taker m') p \<and> P m' ((p, rs') # ls)"
    proof (rule match_bucket_steps [OF mb, where P = "\<lambda>m rs. acceptable (m_taker m) p \<and> P m ((p, rs) # ls)"])
      from False Cons.prems(2) l show "acceptable (m_taker m) p \<and> P m ((p, rs) # ls)" by simp
    next
      fix m r rs m' r' r2 L
      assume a: "acceptable (m_taker m) p \<and> P m ((p, r # rs) # ls)" "0 < remaining_quantity (m_taker m)"
        "execute tp m r = Inr (m', r')" "remaining_quantity r' = 0"
        "retire tp Filled r' (m_funds m') = Inr (r2, L)"
      from a(3) have "acceptable (m_taker m') p = acceptable (m_taker m) p"
        by (rule execute_acceptable)
      with a full [of m p r rs ls m' r' r2 L]
      show "acceptable (m_taker (m'\<lparr>m_funds := L, m_done := r2 # m_done m'\<rparr>)) p \<and>
            P (m'\<lparr>m_funds := L, m_done := r2 # m_done m'\<rparr>) ((p, rs) # ls)"
        by simp
    next
      fix m r rs m' r'
      assume a: "acceptable (m_taker m) p \<and> P m ((p, r # rs) # ls)" "0 < remaining_quantity (m_taker m)"
        "execute tp m r = Inr (m', r')" "remaining_quantity r' \<noteq> 0"
      from a(3) have "acceptable (m_taker m') p = acceptable (m_taker m) p"
        by (rule execute_acceptable)
      with a part [of m p r rs ls m' r']
      show "acceptable (m_taker m') p \<and> P m' ((p, r' # rs) # ls)" by simp
    qed
    show ?thesis
    proof (cases "rs' = []")
      case True
      with False mb Cons.prems(1) l have rec: "match_levels tp m' ls = Inr (m1, ls1)" by auto
      from acc True have "P m' ls" by (auto intro: drop)
      then show ?thesis by (rule Cons.IH [OF rec])
    next
      case nz: False
      with False mb Cons.prems(1) l have "m1 = m'" "ls1 = (p, rs') # ls" by auto
      with acc show ?thesis by simp
    qed
  qed
qed

subsection \<open>Quantities of orders\<close>

subsection \<open>Book operations on the orders they hold\<close>

lemma resting_Nil [simp]: "resting [] = []"
  by (simp add: resting_def)

lemma resting_Cons [simp]: "resting ((p, xs) # ls) = xs @ resting ls"
  by (simp add: resting_def)

lemma set_resting_insert [simp]:
  "set (resting (insert_order sd p x ls)) = insert x (set (resting ls))"
  by (induction ls) (auto split: if_splits)


lemma book_side_set [simp]:
  "book_side sd (set_book_side sd ls e) = ls"
  "book_side (opposite sd) (set_book_side sd ls e) = book_side (opposite sd) e"
  "book_side sd (set_book_side (opposite sd) ls e) = book_side sd e"
  by (cases sd; simp add: book_side_def set_book_side_def)+

lemma set_book_side_other [simp]:
  "funds (set_book_side sd ls e) = funds e" "closed (set_book_side sd ls e) = closed e"
  "trades (set_book_side sd ls e) = trades e" "last_price (set_book_side sd ls e) = last_price e"
  "next_oid (set_book_side sd ls e) = next_oid e" "clock (set_book_side sd ls e) = clock e"
  by (cases sd; simp add: set_book_side_def)+

lemma book_side_update [simp]:
  "book_side sd (e\<lparr>funds := L\<rparr>) = book_side sd e"
  "book_side sd (e\<lparr>closed := cl\<rparr>) = book_side sd e"
  "book_side sd (e\<lparr>trades := tr\<rparr>) = book_side sd e"
  "book_side sd (e\<lparr>last_price := lp\<rparr>) = book_side sd e"
  "book_side sd (e\<lparr>next_oid := n\<rparr>) = book_side sd e"
  "book_side sd (e\<lparr>clock := k\<rparr>) = book_side sd e"
  "book_side sd (e\<lparr>triggers := tg\<rparr>) = book_side sd e"
  by (cases sd; simp add: book_side_def)+

lemma set_active: "set (active e) = set (resting (book_side Buy e)) \<union> set (resting (book_side Sell e)) \<union> set (triggers e)"
  by (auto simp: active_def book_side_def)

lemma set_active_sides:
  "set (active e) = set (resting (book_side sd e)) \<union> set (resting (book_side (opposite sd) e)) \<union> set (triggers e)"
  by (cases sd) (auto simp: set_active)

lemma set_all_orders:
  "set (all_orders e) = set (resting (book_side sd e)) \<union> set (resting (book_side (opposite sd) e)) \<union> set (triggers e) \<union> set (closed e)"
  by (simp add: all_orders_def set_active_sides [of e sd])

subsection \<open>Quantities through matching\<close>


lemma order_ok_update [simp]:
  "order_ok (x\<lparr>status := st, reserved := v\<rparr>) = order_ok x"
  "order_ok (x\<lparr>admitted := k\<rparr>) = order_ok x"
  "order_ok (x\<lparr>order_type := ty\<rparr>) = order_ok x"
  "order_ok (x\<lparr>reserved := v, status := st\<rparr>) = order_ok x"
  by (simp_all add: order_ok_def)

lemma evolves_refl [simp]: "evolves x x"
  by (simp add: evolves_def)



lemma evolves_update [simp]:
  "evolves x (y\<lparr>status := st, reserved := v\<rparr>) = evolves x y"
  "evolves x (y\<lparr>admitted := k\<rparr>) = evolves x y"
  "evolves x (y\<lparr>order_type := ty\<rparr>) = evolves x y"
  by (simp_all add: evolves_def)




subsection \<open>What the ledger operations do to locked balances\<close>



lemma release_nonneg: "release u c a L = Inr L' \<Longrightarrow> 0 \<le> a"
  by (auto simp: release_def Let_def split: if_splits)







subsection \<open>Reservations held by orders\<close>

lemma held_sum_simps [simp]:
  "held_sum tp u c [] = 0"
  "held_sum tp u c (x # xs) = held tp u c x + held_sum tp u c xs"
  "held_sum tp u c (xs @ ys) = held_sum tp u c xs + held_sum tp u c ys"
  by (simp_all add: held_sum_def)


lemma held_retired [simp]: "held tp u c (x\<lparr>status := st, reserved := 0\<rparr>) = 0"
  by (simp add: held_def)

subsection \<open>Well-formed book sides\<close>

lemma side_ok_Nil [simp]: "side_ok sd k []"
  by (simp add: side_ok_def)

lemma side_ok_tail: "side_ok sd k (l # ls) \<Longrightarrow> side_ok sd k ls"
  by (simp add: side_ok_def)

lemma side_ok_pop: "side_ok sd k ((p, r # rs) # ls) \<Longrightarrow> side_ok sd k ((p, rs) # ls)"
  by (simp add: side_ok_def bucket_ok_def)

lemma resting_ok_fill:
  "resting_ok sd k p r \<Longrightarrow> remaining_quantity r - q \<noteq> 0 \<Longrightarrow> resting_ok sd k p (fill q c r)"
  by (simp add: resting_ok_def canCancelOrder_def)

lemma side_ok_fill_head:
  assumes "side_ok sd k ((p, r # rs) # ls)" and "remaining_quantity r - q \<noteq> 0"
  shows "side_ok sd k ((p, fill q c r # rs) # ls)"
  using assms by (simp add: side_ok_def bucket_ok_def resting_ok_fill)

lemma match_levels_side_ok:
  assumes "match_levels tp m ls = Inr (m1, ls1)" and "side_ok sd k ls"
  shows "side_ok sd k ls1"
proof (rule match_levels_steps [OF assms(1), where P = "\<lambda>m ls. side_ok sd k ls"])
  show "side_ok sd k ls" by fact
next
  fix m p r rs ls m' r' r2 L
  assume "side_ok sd k ((p, r # rs) # ls)"
  then show "side_ok sd k ((p, rs) # ls)" by (rule side_ok_pop)
next
  fix m :: match_state and p r rs ls m' r'
  assume P: "side_ok sd k ((p, r # rs) # ls)"
    and ex: "execute tp m r = Inr (m', r')" and nz: "remaining_quantity r' \<noteq> 0"
  from ex show "side_ok sd k ((p, r' # rs) # ls)"
  proof (rule execute_Inr)
    fix pr La
    assume r': "r' = fill (exec_qty (m_taker m) r) (maker_cost (m_taker m) (exec_qty (m_taker m) r) pr) r"
    with nz have "remaining_quantity r - exec_qty (m_taker m) r \<noteq> 0" by simp
    from side_ok_fill_head [OF P this] r' show ?thesis by simp
  qed
next
  fix m :: match_state and p ls
  assume "side_ok sd k ((p, []) # ls)"
  then show "side_ok sd k ls" by (rule side_ok_tail)
qed


subsection \<open>Reservations through matching\<close>




subsection \<open>Orders completed by matching\<close>


subsection \<open>The trades of a matching run\<close>

lemma exec_qty_part:
  "remaining_quantity (fill (exec_qty t r) c r) \<noteq> 0 \<Longrightarrow> exec_qty t r = remaining_quantity t"
  by (simp add: exec_qty_def min_def split: if_splits)

lemma exec_qty_full:
  "remaining_quantity r - exec_qty t r = 0 \<Longrightarrow> exec_qty t r = remaining_quantity r"
  by simp


lemma match_trades_prefix:
  assumes "match_trades xs0 t0 m ls"
  shows "map (maker_order_id (side t0)) (m_trades m) = map oid (take (length (m_trades m)) xs0)"
proof -
  from assms have eq: "map oid xs0 = map oid (rev (m_done m)) @ map oid (resting ls)"
    by (simp add: match_trades_def)
  from assms consider
      (a) "map (maker_order_id (side t0)) (m_trades m) = map oid (rev (m_done m))"
    | (b) "resting ls \<noteq> []"
          "map (maker_order_id (side t0)) (m_trades m) = map oid (rev (m_done m)) @ [oid (hd (resting ls))]"
    by (auto simp: match_trades_def)
  then have "map (maker_order_id (side t0)) (m_trades m) = take (length (m_trades m)) (map oid xs0)"
  proof cases
    case a
    then have "length (m_trades m) = length (m_done m)"
      by (metis length_map length_rev)
    with a eq show ?thesis by simp
  next
    case b
    from b(2) have len: "length (m_trades m) = Suc (length (m_done m))"
      by (metis length_map length_rev length_append_singleton)
    from b(1) obtain y ys where ys: "resting ls = y # ys" by (cases "resting ls") auto
    with b(2) eq len show ?thesis by simp
  qed
  then show ?thesis by (simp add: take_map)
qed

subsection \<open>When matching stops\<close>

lemma match_bucket_stop:
  "match_bucket tp m rs = Inr (m1, rs1) \<Longrightarrow> rs1 = [] \<or> remaining_quantity (m_taker m1) \<le> 0"
proof (induction rs arbitrary: m)
  case Nil
  then show ?case by simp
next
  case (Cons r rs)
  show ?case
  proof (cases "remaining_quantity (m_taker m) \<le> 0")
    case True
    with Cons.prems show ?thesis by simp
  next
    case False
    with Cons.prems obtain m' r' where ex: "execute tp m r = Inr (m', r')"
      by (cases "execute tp m r") auto
    show ?thesis
    proof (cases "remaining_quantity r' = 0")
      case True
      with False ex Cons.prems obtain r2 L where
        "match_bucket tp (m'\<lparr>m_funds := L, m_done := r2 # m_done m'\<rparr>) rs = Inr (m1, rs1)"
        by (cases "retire tp Filled r' (m_funds m')") auto
      then show ?thesis by (rule Cons.IH)
    next
      case nz: False
      with False ex Cons.prems have m1: "m1 = m'" by auto
      from ex have "remaining_quantity (m_taker m') = 0"
      proof (rule execute_Inr)
        fix pr La
        assume t: "m_taker m' = fill (exec_qty (m_taker m) r)
                 (taker_cost (m_taker m) (exec_qty (m_taker m) r) pr) (m_taker m)"
          and r': "r' = fill (exec_qty (m_taker m) r) (maker_cost (m_taker m) (exec_qty (m_taker m) r) pr) r"
        from nz have "exec_qty (m_taker m) r = remaining_quantity (m_taker m)"
          unfolding r' by (rule exec_qty_part)
        with t show ?thesis by simp
      qed
      with m1 show ?thesis by simp
    qed
  qed
qed

lemma match_levels_stop:
  "match_levels tp m ls = Inr (m1, ls1) \<Longrightarrow>
   remaining_quantity (m_taker m1) \<le> 0 \<or> ls1 = [] \<or> \<not> acceptable (m_taker m1) (fst (hd ls1))"
proof (induction ls arbitrary: m)
  case Nil
  then show ?case by simp
next
  case (Cons l ls)
  obtain p rs where l: "l = (p, rs)" by (cases l)
  show ?case
  proof (cases "remaining_quantity (m_taker m) \<le> 0 \<or> \<not> acceptable (m_taker m) p")
    case True
    with Cons.prems l show ?thesis by auto
  next
    case False
    with Cons.prems l obtain m' rs' where mb: "match_bucket tp m rs = Inr (m', rs')"
      by (cases "match_bucket tp m rs") auto
    show ?thesis
    proof (cases "rs' = []")
      case True
      with False mb Cons.prems l have "match_levels tp m' ls = Inr (m1, ls1)" by auto
      then show ?thesis by (rule Cons.IH)
    next
      case nz: False
      with False mb Cons.prems l have "m1 = m'" by auto
      with match_bucket_stop [OF mb] nz show ?thesis by simp
    qed
  qed
qed

subsection \<open>The dry run of fill-or-kill\<close>

lemma liquidity_Nil [simp]: "liquidity t [] = 0"
  by (simp add: liquidity_def)

lemma liquidity_Cons [simp]:
  "liquidity t ((p, xs) # ls) =
     (if acceptable t p then sum_list (map remaining_quantity xs) + liquidity t ls else liquidity t ls)"
  by (simp add: liquidity_def)

lemma liquidity_fill [simp]: "liquidity (fill q c t) ls = liquidity t ls"
  by (simp add: liquidity_def)

lemma fok_fillable_liquidity: "fok_fillable t ls \<longleftrightarrow> remaining_quantity t \<le> liquidity t ls"
  by (simp add: fok_fillable_def liquidity_def)

lemma match_levels_liquidity:
  assumes "match_levels tp m ls = Inr (m1, ls1)"
    and "0 \<le> remaining_quantity (m_taker m)" and "remaining_quantity (m_taker m) \<le> liquidity (m_taker m) ls"
  shows "0 \<le> remaining_quantity (m_taker m1) \<and> remaining_quantity (m_taker m1) \<le> liquidity (m_taker m1) ls1"
proof (rule match_levels_steps [OF assms(1),
    where P = "\<lambda>m ls. 0 \<le> remaining_quantity (m_taker m) \<and> remaining_quantity (m_taker m) \<le> liquidity (m_taker m) ls"])
  from assms(2,3)
  show "0 \<le> remaining_quantity (m_taker m) \<and> remaining_quantity (m_taker m) \<le> liquidity (m_taker m) ls" by simp
next
  fix m p r rs ls m' r' r2 L
  assume P: "0 \<le> remaining_quantity (m_taker m) \<and> remaining_quantity (m_taker m) \<le> liquidity (m_taker m) ((p, r # rs) # ls)"
    and acc: "acceptable (m_taker m) p"
    and ex: "execute tp m r = Inr (m', r')" and z: "remaining_quantity r' = 0"
  from ex show "0 \<le> remaining_quantity (m_taker (m'\<lparr>m_funds := L, m_done := r2 # m_done m'\<rparr>)) \<and>
        remaining_quantity (m_taker (m'\<lparr>m_funds := L, m_done := r2 # m_done m'\<rparr>))
          \<le> liquidity (m_taker (m'\<lparr>m_funds := L, m_done := r2 # m_done m'\<rparr>)) ((p, rs) # ls)"
  proof (rule execute_Inr)
    fix pr La
    assume t: "m_taker m' = fill (exec_qty (m_taker m) r)
                 (taker_cost (m_taker m) (exec_qty (m_taker m) r) pr) (m_taker m)"
      and r': "r' = fill (exec_qty (m_taker m) r) (maker_cost (m_taker m) (exec_qty (m_taker m) r) pr) r"
    from z r' have q: "exec_qty (m_taker m) r = remaining_quantity r" by simp
    then have "remaining_quantity r \<le> remaining_quantity (m_taker m)" by (simp add: exec_qty_def)
    with P acc t q show ?thesis by simp
  qed
next
  fix m p r rs ls m' r'
  assume P: "0 \<le> remaining_quantity (m_taker m) \<and> remaining_quantity (m_taker m) \<le> liquidity (m_taker m) ((p, r # rs) # ls)"
    and acc: "acceptable (m_taker m) p"
    and ex: "execute tp m r = Inr (m', r')" and nz: "remaining_quantity r' \<noteq> 0"
  from ex show "0 \<le> remaining_quantity (m_taker m') \<and>
        remaining_quantity (m_taker m') \<le> liquidity (m_taker m') ((p, r' # rs) # ls)"
  proof (rule execute_Inr)
    fix pr La
    assume t: "m_taker m' = fill (exec_qty (m_taker m) r)
                 (taker_cost (m_taker m) (exec_qty (m_taker m) r) pr) (m_taker m)"
      and r': "r' = fill (exec_qty (m_taker m) r) (maker_cost (m_taker m) (exec_qty (m_taker m) r) pr) r"
    from nz have q: "exec_qty (m_taker m) r = remaining_quantity (m_taker m)"
      unfolding r' by (rule exec_qty_part)
    with P acc t r' show ?thesis by simp
  qed
next
  fix m :: match_state and p ls
  assume "0 \<le> remaining_quantity (m_taker m) \<and> remaining_quantity (m_taker m) \<le> liquidity (m_taker m) ((p, []) # ls)"
  then show "0 \<le> remaining_quantity (m_taker m) \<and> remaining_quantity (m_taker m) \<le> liquidity (m_taker m) ls"
    by (simp split: if_splits)
qed

lemma unacceptable_rest:
  assumes "sorted_wrt (better sd) (p # ps)" and "\<not> acceptable t p" and "side t = opposite sd"
  shows "list_all (\<lambda>q. \<not> acceptable t q) (p # ps)"
proof -
  from assms(2) obtain l where l: "limit_of t = Some l"
    by (cases "limit_of t") (simp_all add: acceptable_def)
  show ?thesis
  proof (cases sd)
    case Buy
    with assms l show ?thesis by (auto simp: acceptable_def list_all_iff)
  next
    case Sell
    with assms l show ?thesis by (auto simp: acceptable_def list_all_iff)
  qed
qed

lemma liquidity_unacceptable:
  "list_all (\<lambda>q. \<not> acceptable t q) (map fst ls) \<Longrightarrow> liquidity t ls = 0"
  by (induction ls) auto

lemma fok_fills:
  assumes m: "match_levels tp m ls = Inr (m1, ls1)"
    and nn: "0 \<le> remaining_quantity (m_taker m)" and liq: "fok_fillable (m_taker m) ls"
    and ok: "side_ok sd k ls" and opp: "side (m_taker m) = opposite sd"
  shows "remaining_quantity (m_taker m1) = 0"
proof -
  from match_levels_liquidity [OF m nn] liq
  have b: "0 \<le> remaining_quantity (m_taker m1)" "remaining_quantity (m_taker m1) \<le> liquidity (m_taker m1) ls1"
    by (simp_all add: fok_fillable_liquidity)
  have opp1: "side (m_taker m1) = opposite sd"
    by (rule match_levels_steps [OF m, where P = "\<lambda>m ls. side (m_taker m) = opposite sd"])
       (auto simp: opp elim!: execute_Inr)
  from match_levels_side_ok [OF m ok] have ok1: "side_ok sd k ls1" .
  from match_levels_stop [OF m] consider "remaining_quantity (m_taker m1) \<le> 0" | "ls1 = []"
    | "ls1 \<noteq> []" "\<not> acceptable (m_taker m1) (fst (hd ls1))" by blast
  then show ?thesis
  proof cases
    case 1
    with b show ?thesis by simp
  next
    case 2
    with b show ?thesis by simp
  next
    case 3
    then obtain l ls' where ls1: "ls1 = l # ls'" by (cases ls1) auto
    with ok1 have "sorted_wrt (better sd) (fst l # map fst ls')" by (simp add: side_ok_def)
    from unacceptable_rest [OF this _ opp1] 3(2) ls1
    have "list_all (\<lambda>q. \<not> acceptable (m_taker m1) q) (map fst ls1)" by simp
    from liquidity_unacceptable [OF this] b show ?thesis by simp
  qed
qed

subsection \<open>Priority order of a book side\<close>

lemma side_ok_precedes:
  "side_ok sd k ls \<Longrightarrow> sorted_wrt (precedes sd) (resting ls)"
proof (induction ls)
  case Nil
  then show ?case by simp
next
  case (Cons l ls)
  obtain p xs where l: "l = (p, xs)" by (cases l)
  from Cons.prems l have b: "list_all (resting_ok sd k p) xs"
    "sorted_wrt (\<lambda>x y. admitted x < admitted y) xs"
    and later: "\<forall>q \<in> set (map fst ls). better sd p q"
    and rest: "side_ok sd k ls"
    by (simp_all add: side_ok_def bucket_ok_def)
  from b have 1: "sorted_wrt (precedes sd) xs"
    by (induction xs) (auto simp: precedes_def resting_ok_def list_all_iff)
  from rest have prices: "\<forall>y \<in> set (resting ls). \<exists>q \<in> set (map fst ls). price y = Some q"
    by (induction ls) (auto simp: side_ok_def bucket_ok_def resting_ok_def list_all_iff)
  have 2: "\<forall>x \<in> set xs. \<forall>y \<in> set (resting ls). precedes sd x y"
  proof (intro ballI)
    fix x y
    assume xy: "x \<in> set xs" "y \<in> set (resting ls)"
    then have "x \<in> set xs" by simp
    with b(1) have px: "price x = Some p" by (simp add: list_all_iff resting_ok_def)
    from xy prices obtain q where q: "q \<in> set (map fst ls)" "price y = Some q" by blast
    with later have "better sd p q" by blast
    with px q show "precedes sd x y" by (simp add: precedes_def)
  qed
  from 1 2 Cons.IH [OF rest] l show ?case
    by (simp add: sorted_wrt_append)
qed

subsection \<open>The invariant of the engine\<close>

subsection \<open>Bookkeeping lemmas\<close>



lemma all_orders_active: "mset (all_orders e) = mset (active e) + mset (closed e)"
  by (simp add: all_orders_def)



lemma list_all_mset: "mset xs = mset ys \<Longrightarrow> list_all P xs = list_all P ys"
  by (auto simp: list_all_iff dest: mset_eq_setD)

lemma ids_ok_transfer:
  assumes "ids_ok xs e" and "mset (all_orders e' @ xs') = mset (all_orders e @ xs)"
    and "next_oid e \<le> next_oid e'"
  shows "ids_ok xs' e'"
proof -
  from assms(2) have m: "mset (map oid (all_orders e' @ xs')) = mset (map oid (all_orders e @ xs))"
    by (metis mset_map)
  from assms(1) have "distinct (map oid (all_orders e @ xs))" by (simp add: ids_ok_def)
  with mset_eq_imp_distinct_iff [OF m] have d: "distinct (map oid (all_orders e' @ xs'))" by simp
  from assms(1) have "list_all (\<lambda>x. oid x < next_oid e) (all_orders e @ xs)"
    by (simp add: ids_ok_def)
  with list_all_mset [OF assms(2)] have "list_all (\<lambda>x. oid x < next_oid e) (all_orders e' @ xs')"
    by simp
  with assms(3) have "list_all (\<lambda>x. oid x < next_oid e') (all_orders e' @ xs')"
    unfolding list_all_iff by (meson less_le_trans)
  with d show ?thesis by (simp add: ids_ok_def)
qed














subsection \<open>Moving orders between the book, the pending set and the terminal orders\<close>

lemma oids_simps [simp]:
  "oids [] = {#}" "oids (x # xs) = add_mset (oid x) (oids xs)" "oids (xs @ ys) = oids xs + oids ys"
  "oids (rev xs) = oids xs"
  by (simp_all add: oids_def)

lemma oids_image: "oids xs = image_mset oid (mset xs)"
  by (simp add: oids_def)

lemma oids_mset: "mset xs = mset ys \<Longrightarrow> oids xs = oids ys"
  by (simp add: oids_image)








subsection \<open>Archiving an order in flight\<close>


lemma active_update [simp]:
  "active (e\<lparr>funds := L\<rparr>) = active e" "active (e\<lparr>closed := cl\<rparr>) = active e"
  "active (e\<lparr>trades := tr\<rparr>) = active e" "active (e\<lparr>last_price := lp\<rparr>) = active e"
  "active (e\<lparr>next_oid := n\<rparr>) = active e" "active (e\<lparr>clock := k\<rparr>) = active e"
  by (simp_all add: active_def)

lemma all_orders_update [simp]:
  "all_orders (e\<lparr>funds := L\<rparr>) = all_orders e"
  "all_orders (e\<lparr>trades := tr\<rparr>) = all_orders e" "all_orders (e\<lparr>last_price := lp\<rparr>) = all_orders e"
  "all_orders (e\<lparr>next_oid := n\<rparr>) = all_orders e" "all_orders (e\<lparr>clock := k\<rparr>) = all_orders e"
  "all_orders (e\<lparr>closed := cl\<rparr>) = active e @ cl"
  by (simp_all add: all_orders_def)


subsection \<open>Placing an order in flight on the book, or among the pending stops\<close>



subsection \<open>Taking an order off the book\<close>





subsection \<open>Admission and external balance changes\<close>



subsection \<open>Matching keeps the invariant\<close>

lemma same_order_refl [simp]: "same_order x x"
  by (simp add: same_order_def)



lemma absorb_match_fields [simp]:
  "book_side (opposite sd) (absorb_match sd m ls e) = ls"
  "book_side sd (absorb_match sd m ls e) = book_side sd e"
  "closed (absorb_match sd m ls e) = m_done m @ closed e"
  "funds (absorb_match sd m ls e) = m_funds m"
  "next_oid (absorb_match sd m ls e) = next_oid e"
  "clock (absorb_match sd m ls e) = clock e"
  "trades (absorb_match sd m ls e) = trades e @ m_trades m"
  using book_side_set(1) [of "opposite sd" ls e] book_side_set(3) [of sd ls e]
  by (simp_all add: absorb_match_def)


subsection \<open>Every command keeps the invariant\<close>





lemma new_order_fields [simp]:
  "oid (new_order i k r) = i" "user_id (new_order i k r) = req_user r"
  "side (new_order i k r) = req_side r" "order_type (new_order i k r) = req_order_type r"
  "status (new_order i k r) = Pending" "reserved (new_order i k r) = 0"
  "quantity (new_order i k r) = req_quantity r" "remaining_quantity (new_order i k r) = req_quantity r"
  "filled_quantity (new_order i k r) = 0"
  by (simp_all add: new_order_def)













subsection \<open>Facts for the claims\<close>



lemma withdraw_order_funds [simp]: "funds (withdraw_order i e) = funds e"
  by (simp add: withdraw_order_def)

lemma withdraw_order_closed [simp]: "closed (withdraw_order i e) = closed e"
  by (simp add: withdraw_order_def)



subsection \<open>Rejected commands, time-in-force of resting orders, the dry run\<close>



lemma resting_ok_tif: "resting_ok sd k p x \<Longrightarrow> time_in_force x \<noteq> IOC"
  by (auto simp: resting_ok_def)

lemma side_ok_tif: "side_ok sd k ls \<Longrightarrow> list_all (\<lambda>y. time_in_force y \<noteq> IOC) (resting ls)"
proof (induction ls)
  case Nil
  then show ?case by simp
next
  case (Cons l ls)
  obtain p xs where l: "l = (p, xs)" by (cases l)
  from Cons.prems l have "list_all (resting_ok sd k p) xs" by (simp add: side_ok_def bucket_ok_def)
  then have "list_all (\<lambda>y. time_in_force y \<noteq> IOC) xs"
    unfolding list_all_iff by (blast dest: resting_ok_tif)
  with Cons.IH [OF side_ok_tail [OF Cons.prems]] l show ?case by simp
qed


lemma opposite_opposite [simp]: "opposite (opposite sd) = sd"
  by (cases sd) simp_all

lemma acceptable_cong:
  "order_type y = order_type x \<Longrightarrow> price y = price x \<Longrightarrow> side y = side x \<Longrightarrow>
   acceptable y = acceptable x"
  by (auto simp: acceptable_def limit_of_def fun_eq_iff split: option.splits)

lemma fok_fillable_cong:
  "remaining_quantity y = remaining_quantity x \<Longrightarrow> order_type y = order_type x \<Longrightarrow> price y = price x \<Longrightarrow> side y = side x \<Longrightarrow>
   fok_fillable y ls = fok_fillable x ls"
  by (simp add: fok_fillable_def acceptable_cong [of y x])

subsection \<open>Orders only move forward\<close>

lemma grows_subset: "A \<subseteq> B \<Longrightarrow> grows A B"
  unfolding grows_def by (meson evolves_refl subsetD)





lemma advance_refl [simp]: "advance xs e xs e"
  by (simp add: advance_def grows_subset)















subsection \<open>Every command moves orders forward\<close>










subsection \<open>Evaluation of the examples\<close>




lemmas ledger_defs =
  demo_ops_def ledger_step_def empty_ledger_def account_at_def put_account_def reserve_def
  release_def take_locked_def give_available_def and_then_def settle_def credit_def debit_def
  Let_def

section \<open>The claims about the exchange core\<close>

text \<open>
  C2. A match of the incoming order of \<open>m\<close> with a resting order \<open>r\<close> emits exactly one
  trade, between these two orders. Its quantity is the minimum of the two remaining
  quantities at execution time, hence at most either of them; its price is the resting
  order's price, and whenever the incoming order's price differs from the resting order's,
  the trade's price is not the incoming order's. Both remaining quantities go down by the
  trade's quantity.
\<close>

theorem trade_quantity_and_price:
  assumes "execute tp m r = Inr (m', r')"
  shows "\<exists>tr. m_trades m' = m_trades m @ [tr] \<and>
           maker_order_id (side (m_taker m)) tr = oid r \<and> taker_order_id (side (m_taker m)) tr = oid (m_taker m) \<and>
           trade_quantity tr = min (remaining_quantity (m_taker m)) (remaining_quantity r) \<and>
           trade_quantity tr \<le> remaining_quantity (m_taker m) \<and> trade_quantity tr \<le> remaining_quantity r \<and>
           price r = Some (trade_price tr) \<and>
           (price (m_taker m) \<noteq> price r \<longrightarrow> price (m_taker m) \<noteq> Some (trade_price tr)) \<and>
           remaining_quantity (m_taker m') = remaining_quantity (m_taker m) - trade_quantity tr \<and>
           remaining_quantity r' = remaining_quantity r - trade_quantity tr"
  using assms
proof (rule execute_Inr)
  fix p L
  assume p: "price r = Some p"
    and t: "m_taker m' = fill (exec_qty (m_taker m) r)
                 (taker_cost (m_taker m) (exec_qty (m_taker m) r) p) (m_taker m)"
    and r': "r' = fill (exec_qty (m_taker m) r) (maker_cost (m_taker m) (exec_qty (m_taker m) r) p) r"
    and tr: "\<exists>tr. m_trades m' = m_trades m @ [tr] \<and> maker_order_id (side (m_taker m)) tr = oid r \<and>
          taker_order_id (side (m_taker m)) tr = oid (m_taker m) \<and> trade_price tr = p \<and>
          trade_quantity tr = exec_qty (m_taker m) r"
  from tr obtain x where x: "m_trades m' = m_trades m @ [x]" "maker_order_id (side (m_taker m)) x = oid r"
    "taker_order_id (side (m_taker m)) x = oid (m_taker m)" "trade_price x = p"
    "trade_quantity x = exec_qty (m_taker m) r" by blast
  have "m_trades m' = m_trades m @ [x] \<and>
           maker_order_id (side (m_taker m)) x = oid r \<and> taker_order_id (side (m_taker m)) x = oid (m_taker m) \<and>
           trade_quantity x = min (remaining_quantity (m_taker m)) (remaining_quantity r) \<and>
           trade_quantity x \<le> remaining_quantity (m_taker m) \<and> trade_quantity x \<le> remaining_quantity r \<and>
           price r = Some (trade_price x) \<and>
           (price (m_taker m) \<noteq> price r \<longrightarrow> price (m_taker m) \<noteq> Some (trade_price x)) \<and>
           remaining_quantity (m_taker m') = remaining_quantity (m_taker m) - trade_quantity x \<and>
           remaining_quantity r' = remaining_quantity r - trade_quantity x"
    using x p t r' by (simp add: exec_qty_def)
  then show ?thesis by blast
qed

theorem trade_quantity_and_price_witness:
  "\<exists>m' r' tr. execute demo_pair demo_match demo_maker = Inr (m', r') \<and>
      m_trades m' = m_trades demo_match @ [tr] \<and>
      maker_order_id Buy tr = 0 \<and> taker_order_id Buy tr = 1 \<and>
      trade_quantity tr = 300 \<and> trade_price tr = 90 \<and>
      remaining_quantity (m_taker m') = 100 \<and> remaining_quantity r' = 0"
proof -
  have "\<not> isl (execute demo_pair demo_match demo_maker)"
    by (simp add: demo_match_def demo_taker_def demo_maker_def demo_pair_def lim_def
        execute_def new_order_def has_limit_price_def is_stop_def fee_amount_def ledger_defs)
  then obtain m' r' where ex: "execute demo_pair demo_match demo_maker = Inr (m', r')"
    by (cases "execute demo_pair demo_match demo_maker") auto
  from trade_quantity_and_price [OF ex] obtain tr where
    "m_trades m' = m_trades demo_match @ [tr]" "maker_order_id (side (m_taker demo_match)) tr = oid demo_maker"
    "taker_order_id (side (m_taker demo_match)) tr = oid (m_taker demo_match)"
    "trade_quantity tr = min (remaining_quantity (m_taker demo_match)) (remaining_quantity demo_maker)"
    "price demo_maker = Some (trade_price tr)"
    "remaining_quantity (m_taker m') = remaining_quantity (m_taker demo_match) - trade_quantity tr"
    "remaining_quantity r' = remaining_quantity demo_maker - trade_quantity tr"
    by blast
  with ex show ?thesis
    by (simp add: demo_match_def demo_taker_def demo_maker_def lim_def new_order_def
        has_limit_price_def)
qed






section \<open>The claims about the client\<close>

text \<open>
  C8. \<open>subscribe\<close> is idempotent: when the derived key is already subscribed, a further
  call with the same channel and symbol changes nothing (neither the subscriptions nor the
  messages sent), and two identical calls in a row have the effect of one.
\<close>

theorem subscribe_idempotent:
  "(subscription_key ch symb \<in> set (subscriptions c) \<longrightarrow> subscribe ch symb c = c) \<and>
   subscribe ch symb (subscribe ch symb c) = subscribe ch symb c"
  by (simp add: subscribe_def Let_def)

theorem subscribe_idempotent_witness:
  "subscription_key ''trades'' (Some ''BTC/USD'')
     \<in> set (subscriptions \<lparr>ws = Some OPEN, subscriptions = [''trades:BTC/USD''], sent = []\<rparr>) \<and>
   subscribe ''trades'' (Some ''BTC/USD'')
     \<lparr>ws = Some OPEN, subscriptions = [''trades:BTC/USD''], sent = []\<rparr>
   = \<lparr>ws = Some OPEN, subscriptions = [''trades:BTC/USD''], sent = []\<rparr>"
proof -
  have k: "subscription_key ''trades'' (Some ''BTC/USD'')
     \<in> set (subscriptions \<lparr>ws = Some OPEN, subscriptions = [''trades:BTC/USD''], sent = []\<rparr>)"
    by (simp add: subscription_key_def)
  from subscribe_idempotent
    [of "''trades''" "Some ''BTC/USD''"
        "\<lparr>ws = Some OPEN, subscriptions = [''trades:BTC/USD''], sent = []\<rparr>"]
  show ?thesis using k by blast
qed

text \<open>
  C9. \<open>addRecentTrade t\<close> puts \<open>t\<close> first, keeps the earlier trades behind it in their
  order, and holds at most 100 trades: the new length is \<open>min (old length + 1) 100\<close>, the
  trades beyond the first 99 earlier ones being dropped.
\<close>

theorem addRecentTrade_front_capped:
  "hd (recentTrades (addRecentTrade t st)) = t \<and>
   tl (recentTrades (addRecentTrade t st)) = take 99 (recentTrades st) \<and>
   length (recentTrades (addRecentTrade t st)) = min (length (recentTrades st) + 1) 100 \<and>
   recentTrades (addRecentTrade t st) \<noteq> []"
proof -
  have "take 100 (t # recentTrades st) = t # take 99 (recentTrades st)"
    by (simp add: take_Cons')
  then show ?thesis
    by (simp add: addRecentTrade_def Let_def min_def)
qed

text \<open>
  C10. \<open>updateOrder o\<close> keeps the length of \<open>userOrders\<close>, leaves every order with another
  id where it was, and changes nothing at all when no order has the id of \<open>o\<close>: it never
  inserts.
\<close>

theorem updateOrder_frame:
  "length (userOrders (updateOrder u st)) = length (userOrders st) \<and>
   (\<forall>i < length (userOrders st).
      order_id (userOrders st ! i) \<noteq> order_id u \<longrightarrow>
      userOrders (updateOrder u st) ! i = userOrders st ! i) \<and>
   ((\<forall>x \<in> set (userOrders st). order_id x \<noteq> order_id u) \<longrightarrow> updateOrder u st = st)"
proof -
  have "(\<forall>x \<in> set xs. order_id x \<noteq> order_id u) \<Longrightarrow>
        map (\<lambda>order. if order_id order = order_id u then u else order) xs = xs" for xs
    by (induction xs) auto
  then show ?thesis
    by (auto simp: updateOrder_def Let_def)
qed

theorem updateOrder_frame_witness:
  "(1::nat) < length (userOrders demo_store) \<and>
   order_id (userOrders demo_store ! 1) \<noteq> order_id \<lparr>order_id = ''a'', payload = (7::nat)\<rparr> \<and>
   userOrders (updateOrder \<lparr>order_id = ''a'', payload = 7\<rparr> demo_store) ! 1 = userOrders demo_store ! 1 \<and>
   list_all (\<lambda>x. order_id x \<noteq> order_id \<lparr>order_id = ''c'', payload = (7::nat)\<rparr>)
     (userOrders demo_store) \<and>
   updateOrder \<lparr>order_id = ''c'', payload = 7\<rparr> demo_store = demo_store"
proof -
  have a: "(1::nat) < length (userOrders demo_store)"
    and b: "order_id (userOrders demo_store ! 1) \<noteq> order_id \<lparr>order_id = ''a'', payload = (7::nat)\<rparr>"
    and c: "\<forall>x \<in> set (userOrders demo_store). order_id x \<noteq> order_id \<lparr>order_id = ''c'', payload = (7::nat)\<rparr>"
    by (simp_all add: demo_store_def)
  from updateOrder_frame [of "\<lparr>order_id = ''a'', payload = 7\<rparr>" demo_store]
       updateOrder_frame [of "\<lparr>order_id = ''c'', payload = 7\<rparr>" demo_store] a b c
  show ?thesis unfolding list_all_iff by blast
qed

end
